theory Spec2Isabelle
  imports Main
begin

section \<open>Data model\<close>

text \<open>
  The history plugin of \<^verbatim>\<open>src/src/index.js\<close> (class \<^verbatim>\<open>Undo\<close>) keeps a stack of
  snapshots of a block editor. A snapshot is an array of blocks; a block carries an
  identity, a type tag and a data object. Block data is JSON: an object is a list of
  key/value pairs in insertion order, numbers are restricted to integers.
\<close>

datatype json =
  JNull | JBool bool | JNum int | JStr string | JArr "json list" | JObj "(string \<times> json) list"

type_synonym obj = "(string \<times> json) list"

text \<open>
  A block is a JavaScript object. The plugin reads its \<^verbatim>\<open>id\<close>, \<^verbatim>\<open>type\<close> and \<^verbatim>\<open>data\<close>;
  \<^verbatim>\<open>id\<close> is \<^verbatim>\<open>undefined\<close> (here \<open>None\<close>) for the default block that \<^verbatim>\<open>clear\<close> makes up.
  \<open>block_rest\<close> holds the properties under other keys (\<^verbatim>\<open>tunes\<close>, say), and
  \<open>block_order\<close> lists the keys of the object in the order of their insertion, which is
  the order in which \<^verbatim>\<open>JSON.stringify\<close> writes them.
\<close>

record block =
  block_id :: "string option"
  block_type :: string
  block_data :: obj
  block_rest :: obj
  block_order :: "string list"

text \<open>
  \<^verbatim>\<open>JSON.stringify\<close>. A JSON text and the tree it denotes, with the keys of every object
  in their order, determine each other, so the text is represented by that tree: two
  values have the same text exactly when they have the same tree. A key whose value is
  \<^verbatim>\<open>undefined\<close> is left out of the text; \<^verbatim>\<open>JSON.stringify(undefined)\<close> is \<^verbatim>\<open>undefined\<close>.
\<close>

definition block_prop :: "block \<Rightarrow> string \<Rightarrow> json option" where
  "block_prop b k =
     (if k = ''id'' then map_option JStr (block_id b)
      else if k = ''type'' then Some (JStr (block_type b))
      else if k = ''data'' then Some (JObj (block_data b))
      else map_of (block_rest b) k)"

definition stringify_block :: "block \<Rightarrow> json" where
  "stringify_block b =
     JObj (List.map_filter (\<lambda>k. map_option (Pair k) (block_prop b k)) (block_order b))"

definition stringify :: "block list \<Rightarrow> json" where
  "stringify st = JArr (map stringify_block st)"

definition stringify_opt :: "block option \<Rightarrow> json option" where
  "stringify_opt b = map_option stringify_block b"

text \<open>
  Deep equality of two JSON values: objects are equal when they have the same keys with
  deep-equal values, in whatever order the keys come.
\<close>

primrec deep_equal :: "json \<Rightarrow> json \<Rightarrow> bool" where
  "deep_equal JNull y = (y = JNull)"
| "deep_equal (JBool b) y = (y = JBool b)"
| "deep_equal (JNum n) y = (y = JNum n)"
| "deep_equal (JStr s) y = (y = JStr s)"
| "deep_equal (JArr xs) y =
     (case y of JArr ys \<Rightarrow> list_all2 (\<lambda>p v. p v) (map deep_equal xs) ys | _ \<Rightarrow> False)"
| "deep_equal (JObj xs) y =
     (case y of
        JObj ys \<Rightarrow>
          length xs = length ys \<and> distinct (map fst xs) \<and> distinct (map fst ys)
          \<and> list_all (\<lambda>(k, p). case map_of ys k of None \<Rightarrow> False | Some v \<Rightarrow> p v)
                (map (map_prod (\<lambda>k. k) deep_equal) xs)
      | _ \<Rightarrow> False)"

text \<open>
  A history entry \<^verbatim>\<open>{ index, state, caretIndex }\<close>. \<^verbatim>\<open>caretIndex\<close> is a number,
  \<^verbatim>\<open>null\<close> or missing; the last two are both \<open>None\<close> (the code only tests its truthiness).
\<close>

record entry =
  index :: int
  state :: "block list"
  caretIndex :: "int option"

text \<open>
  The calls the plugin makes on its collaborators (the Editor.js block and caret API, the
  caret library, the \<^verbatim>\<open>onUpdate\<close> callback). \<open>SetPosLater\<close> is the
  \<^verbatim>\<open>setTimeout(() => caretBlock.setPos(caretIndex), 50)\<close> of \<^verbatim>\<open>setCaretIndex\<close>.
\<close>

datatype call =
    Insert string obj int
  | Delete int
  | Update "string option" obj
  | Render "block list"
  | SetToBlockEnd int
  | SetPosLater int int
  | OnUpdate

text \<open>
  The collaborators are not part of the repository: the live editor is a value of an
  arbitrary type \<open>'e\<close>, and what its API answers and how a call changes it are parameters.
  Every call is taken to complete. \<open>blocks_getBlockByIndex\<close> gives the id of the live
  block, \<open>None\<close> when there is no block at that index; \<open>holder_content\<close> tells whether
  \<^verbatim>\<open>holder.getElementsByClassName("ce-block__content")[index]\<close> exists;
  \<open>holder_toolbox\<close> whether \<^verbatim>\<open>holder.querySelector(".ce-toolbox")\<close> finds an element;
  \<open>editor_save\<close> is the \<^verbatim>\<open>blocks\<close> array that \<^verbatim>\<open>editor.save()\<close> resolves with.
\<close>

record 'e api =
  blocks_getCurrentBlockIndex :: "'e \<Rightarrow> int"
  blocks_getBlocksCount :: "'e \<Rightarrow> int"
  blocks_getBlockByIndex :: "'e \<Rightarrow> int \<Rightarrow> string option"
  blocks_getById :: "'e \<Rightarrow> string option \<Rightarrow> bool"
  blocks_insert :: "string \<Rightarrow> obj \<Rightarrow> int \<Rightarrow> 'e \<Rightarrow> 'e"
  blocks_delete :: "int \<Rightarrow> 'e \<Rightarrow> 'e"
  blocks_update :: "string option \<Rightarrow> obj \<Rightarrow> 'e \<Rightarrow> 'e"
  blocks_render :: "block list \<Rightarrow> 'e \<Rightarrow> 'e"
  caret_setToBlock :: "int \<Rightarrow> 'e \<Rightarrow> 'e"
  caret_getPos :: "'e \<Rightarrow> int \<Rightarrow> int"
  holder_content :: "'e \<Rightarrow> int \<Rightarrow> bool"
  holder_toolbox :: "'e \<Rightarrow> bool"
  editor_save :: "'e \<Rightarrow> block list"

text \<open>
  The fields of an \<^verbatim>\<open>Undo\<close> object, the live editor it drives, and the calls made so far.
  Each call is recorded with the value \<^verbatim>\<open>shouldSaveHistory\<close> had when it was made.
  \<open>initialItemInStack\<close> tells whether \<^verbatim>\<open>stack[0]\<close> is the very object
  \<^verbatim>\<open>initialItem\<close> refers to: \<^verbatim>\<open>undo\<close> assigns to the \<^verbatim>\<open>index\<close> field of a stack entry,
  which changes \<^verbatim>\<open>initialItem\<close> as well when the two are one object. The object can only
  sit at index 0: \<^verbatim>\<open>initialize\<close> and \<^verbatim>\<open>clear\<close> put it there, \<^verbatim>\<open>slice\<close> keeps indices and
  \<^verbatim>\<open>shift\<close> removes it.
\<close>

record 'e plugin =
  stack :: "entry list"
  position :: int
  maxLength :: int
  shouldSaveHistory :: bool
  readOnly :: bool
  initialItem :: "entry option"
  initialItemInStack :: bool
  defaultBlock :: string
  editor :: "'e"
  trace :: "(call \<times> bool) list"

text \<open>
  A method returns, or throws with the object left as it was at the throw. The only
  exception the plugin's own code raises is the \<^verbatim>\<open>TypeError\<close> of reading a property of
  \<^verbatim>\<open>undefined\<close>.
\<close>

datatype error = TypeError

datatype 'w outcome = Returned 'w | Threw error 'w

fun world_of :: "'w outcome \<Rightarrow> 'w" where
  "world_of (Returned w) = w"
| "world_of (Threw e w) = w"

fun and_then :: "'w outcome \<Rightarrow> ('w \<Rightarrow> 'w outcome) \<Rightarrow> 'w outcome" where
  "and_then (Returned w) f = f w"
| "and_then (Threw e w) f = Threw e w"

subsection \<open>JavaScript arrays\<close>

text \<open>\<^verbatim>\<open>xs[i]\<close>: \<^verbatim>\<open>undefined\<close> outside the array.\<close>

definition js_nth :: "'a list \<Rightarrow> int \<Rightarrow> 'a option" where
  "js_nth xs i = (if 0 \<le> i \<and> i < int (length xs) then Some (xs ! nat i) else None)"

text \<open>\<^verbatim>\<open>xs.slice(0, e)\<close>: a negative end counts from the end of the array.\<close>

definition slice0 :: "'a list \<Rightarrow> int \<Rightarrow> 'a list" where
  "slice0 xs e = (if e < 0 then take (nat (int (length xs) + e)) xs else take (nat e) xs)"

subsection \<open>Calls on the collaborators\<close>

definition emit :: "call \<Rightarrow> 'e plugin \<Rightarrow> 'e plugin" where
  "emit c w = w\<lparr>trace := trace w @ [(c, shouldSaveHistory w)]\<rparr>"

definition call_insert :: "'e api \<Rightarrow> string \<Rightarrow> obj \<Rightarrow> int \<Rightarrow> 'e plugin \<Rightarrow> 'e plugin" where
  "call_insert api ty d i w = emit (Insert ty d i) (w\<lparr>editor := blocks_insert api ty d i (editor w)\<rparr>)"

definition call_delete :: "'e api \<Rightarrow> int \<Rightarrow> 'e plugin \<Rightarrow> 'e plugin" where
  "call_delete api i w = emit (Delete i) (w\<lparr>editor := blocks_delete api i (editor w)\<rparr>)"

definition call_update :: "'e api \<Rightarrow> string option \<Rightarrow> obj \<Rightarrow> 'e plugin \<Rightarrow> 'e plugin" where
  "call_update api b d w = emit (Update b d) (w\<lparr>editor := blocks_update api b d (editor w)\<rparr>)"

definition call_render :: "'e api \<Rightarrow> block list \<Rightarrow> 'e plugin \<Rightarrow> 'e plugin" where
  "call_render api st w = emit (Render st) (w\<lparr>editor := blocks_render api st (editor w)\<rparr>)"

definition call_setToBlock :: "'e api \<Rightarrow> int \<Rightarrow> 'e plugin \<Rightarrow> 'e plugin" where
  "call_setToBlock api i w = emit (SetToBlockEnd i) (w\<lparr>editor := caret_setToBlock api i (editor w)\<rparr>)"

section \<open>The snapshot store\<close>

text \<open>
  \<^verbatim>\<open>truncate(stack, limit)\<close>: \<^verbatim>\<open>while (stack.length > limit) stack.shift()\<close>. \<^verbatim>\<open>shift\<close> on an
  empty array leaves it empty, so the loop does not end for a negative limit.
\<close>

partial_function (option) truncate :: "'a list \<Rightarrow> int \<Rightarrow> 'a list option" where
  "truncate stk limit = (if int (length stk) > limit then truncate (tl stk) limit else Some stk)"

definition clear :: "'e plugin \<Rightarrow> 'e plugin" where
  "clear w = emit OnUpdate (w\<lparr>
     stack := (case initialItem w of
                 Some it \<Rightarrow> [it]
               | None \<Rightarrow> [\<lparr>index = 0,
                           state = [\<lparr>block_id = None, block_type = defaultBlock w, block_data = [],
                                     block_rest = [], block_order = [''type'', ''data'']\<rparr>],
                           caretIndex = None\<rparr>]),
     initialItemInStack := (initialItem w \<noteq> None),
     position := 0\<rparr>)"

text \<open>
  The constructor: \<^verbatim>\<open>maxLength || 30\<close> replaces a missing and a zero limit by 30; the
  stack and the position get their first values from \<^verbatim>\<open>clear\<close>.
\<close>

definition constructor :: "'e \<Rightarrow> string \<Rightarrow> bool \<Rightarrow> int option \<Rightarrow> 'e plugin" where
  "constructor ed defBlock ro maxLen = clear \<lparr>
     stack = [], position = 0,
     maxLength = (case maxLen of None \<Rightarrow> 30 | Some m \<Rightarrow> if m = 0 then 30 else m),
     shouldSaveHistory = True, readOnly = ro,
     initialItem = None, initialItemInStack = False,
     defaultBlock = defBlock, editor = ed, trace = []\<rparr>"

definition initialize :: "block list \<Rightarrow> 'e plugin \<Rightarrow> 'e plugin" where
  "initialize initialData w =
     (let firstElement = \<lparr>index = int (length initialData) - 1, state = initialData, caretIndex = None\<rparr>
      in w\<lparr>stack := (case stack w of [] \<Rightarrow> [firstElement] | _ # rest \<Rightarrow> firstElement # rest),
           initialItem := Some firstElement,
           initialItemInStack := True\<rparr>)"

definition count :: "'e plugin \<Rightarrow> int" where
  "count w = int (length (stack w)) - 1"

definition canUndo :: "'e plugin \<Rightarrow> bool" where
  "canUndo w = (\<not> readOnly w \<and> position w > 0)"

definition canRedo :: "'e plugin \<Rightarrow> bool" where
  "canRedo w = (\<not> readOnly w \<and> position w < count w)"

text \<open>
  The last test is \<^verbatim>\<open>JSON.stringify(state) !== JSON.stringify(newData)\<close>, a comparison
  of texts.
\<close>

definition editorDidUpdate :: "block list \<Rightarrow> 'e plugin \<Rightarrow> error + bool" where
  "editorDidUpdate newData w =
     (case js_nth (stack w) (position w) of
        None \<Rightarrow> Inl TypeError
      | Some e \<Rightarrow> Inr (if length newData = 0 then False
                       else if length newData \<noteq> length (state e) then True
                       else stringify (state e) \<noteq> stringify newData))"

definition getCaretIndex :: "'e api \<Rightarrow> int \<Rightarrow> 'e plugin \<Rightarrow> error + int" where
  "getCaretIndex api i w =
     (if holder_content api (editor w) i then Inr (caret_getPos api (editor w) i) else Inl TypeError)"

definition save :: "'e api \<Rightarrow> block list \<Rightarrow> 'e plugin \<Rightarrow> 'e plugin outcome option" where
  "save api st w =
     (case (if position w \<ge> maxLength w then truncate (stack w) (maxLength w) else Some (stack w)) of
        None \<Rightarrow> None
      | Some stack1 \<Rightarrow>
          (let position1 = min (position w) (int (length stack1) - 1);
               stack2 = slice0 stack1 (position1 + 1);
               w2 = w\<lparr>stack := stack2, position := position1,
                      initialItemInStack := (initialItemInStack w \<and> length stack1 = length (stack w)
                                             \<and> stack2 \<noteq> [])\<rparr>;
               idx = blocks_getCurrentBlockIndex api (editor w);
               blockCount = blocks_getBlocksCount api (editor w);
               indexInState = (if js_nth st idx = None then idx - (blockCount - int (length st)) else idx);
               caret = (case js_nth st indexInState of
                          None \<Rightarrow> Inr None
                        | Some b \<Rightarrow> if block_type b = ''paragraph'' \<or> block_type b = ''header''
                                    then map_sum (\<lambda>e. e) Some (getCaretIndex api idx w2)
                                    else Inr None)
           in case caret of
                Inl e \<Rightarrow> Some (Threw e w2)
              | Inr c \<Rightarrow> Some (Returned (emit OnUpdate (w2\<lparr>
                            stack := stack2 @ [\<lparr>index = indexInState, state = st, caretIndex = c\<rparr>],
                            position := position1 + 1\<rparr>)))))"

text \<open>
  \<^verbatim>\<open>registerChange\<close>, with the callback it hands to \<^verbatim>\<open>editor.save().then\<close> run right
  after it, on the blocks that \<^verbatim>\<open>editor.save()\<close> resolves with (the editor object and its
  \<^verbatim>\<open>save\<close> method exist). The flag is set back before the callback runs, as in the
  source, where the callback is deferred. \<^verbatim>\<open>setReadOnly\<close> is the first statement.
\<close>

definition setReadOnly :: "'e api \<Rightarrow> 'e plugin \<Rightarrow> 'e plugin" where
  "setReadOnly api w = w\<lparr>readOnly := \<not> holder_toolbox api (editor w)\<rparr>"

definition registerChange :: "'e api \<Rightarrow> 'e plugin \<Rightarrow> 'e plugin outcome option" where
  "registerChange api w =
     (let w1 = setReadOnly api w in
      if \<not> readOnly w1 then
        (let w2 = w1\<lparr>shouldSaveHistory := True\<rparr> in
         if shouldSaveHistory w1 then
           (let savedBlocks = editor_save api (editor w1) in
            case editorDidUpdate savedBlocks w2 of
              Inl e \<Rightarrow> Some (Threw e w2)
            | Inr True \<Rightarrow> save api savedBlocks w2
            | Inr False \<Rightarrow> Some (Returned w2))
         else Some (Returned w2))
      else Some (Returned w1))"

section \<open>The change classifier\<close>

definition blockWasDropped :: "block list \<Rightarrow> block list \<Rightarrow> bool" where
  "blockWasDropped st compState =
     (if length st = length compState
      then list_ex (\<lambda>(b, c). block_id b \<noteq> block_id c) (zip st compState)
      else False)"

definition blockWasSkipped :: "block list \<Rightarrow> block list \<Rightarrow> bool" where
  "blockWasSkipped st compState = (length st \<noteq> length compState)"

definition contentChangedInNoFocusBlock :: "int \<Rightarrow> int \<Rightarrow> bool" where
  "contentChangedInNoFocusBlock i compIndex = (i \<noteq> compIndex)"

definition blockWasDeleted :: "block list \<Rightarrow> block list \<Rightarrow> bool" where
  "blockWasDeleted st compState = (length st > length compState)"

text \<open>
  \<^verbatim>\<open>Object.keys(state[index].data).length === 0 && JSON.stringify(compState[index + 1])
  !== JSON.stringify(state[index + 1])\<close>.
\<close>

definition contentWasCopied :: "block list \<Rightarrow> block list \<Rightarrow> int \<Rightarrow> error + bool" where
  "contentWasCopied st compState i =
     (case js_nth st i of
        None \<Rightarrow> Inl TypeError
      | Some b \<Rightarrow> Inr (length (block_data b) = 0
                       \<and> stringify_opt (js_nth compState (i + 1)) \<noteq> stringify_opt (js_nth st (i + 1))))"

section \<open>The cursor restorer\<close>

text \<open>\<^verbatim>\<open>caretIndex && caretIndex !== -1\<close>: \<^verbatim>\<open>null\<close>, \<^verbatim>\<open>undefined\<close> and \<^verbatim>\<open>0\<close> are falsy.\<close>

definition truthy :: "int option \<Rightarrow> bool" where
  "truthy c = (case c of None \<Rightarrow> False | Some n \<Rightarrow> n \<noteq> 0)"

definition setCaretIndex :: "'e api \<Rightarrow> int \<Rightarrow> int option \<Rightarrow> 'e plugin \<Rightarrow> 'e plugin outcome" where
  "setCaretIndex api i c w =
     (if truthy c \<and> c \<noteq> Some (- 1)
      then (if holder_content api (editor w) i
            then Returned (emit (SetPosLater i (the c)) w)
            else Threw TypeError w)
      else Returned (call_setToBlock api i w))"

section \<open>The undo executor\<close>

text \<open>
  \<^verbatim>\<open>insertDeletedBlock\<close>: the first \<^verbatim>\<open>i\<close> with \<^verbatim>\<open>!compState[i] || state[i].id !==
  compState[i].id\<close> gets its block inserted again; the loop stops there.
\<close>

definition idDiffers :: "block list \<Rightarrow> block list \<Rightarrow> nat \<Rightarrow> bool" where
  "idDiffers st compState i =
     (case js_nth compState (int i) of
        None \<Rightarrow> True
      | Some c \<Rightarrow> block_id (st ! i) \<noteq> block_id c)"

definition insertDeletedBlock ::
    "'e api \<Rightarrow> block list \<Rightarrow> block list \<Rightarrow> int \<Rightarrow> 'e plugin \<Rightarrow> 'e plugin" where
  "insertDeletedBlock api st compState i w =
     (case find (idDiffers st compState) [0..<length st] of
        None \<Rightarrow> w
      | Some k \<Rightarrow> call_setToBlock api i
                   (call_insert api (block_type (st ! k)) (block_data (st ! k)) (int k) w))"

text \<open>
  The \<^verbatim>\<open>if\<close>/\<^verbatim>\<open>else if\<close> chain of \<^verbatim>\<open>undo\<close>; \<open>i\<close> is the index after its correction.
\<close>

definition undoBranch ::
    "'e api \<Rightarrow> int \<Rightarrow> block list \<Rightarrow> int \<Rightarrow> block list \<Rightarrow> int option \<Rightarrow> int \<Rightarrow> 'e plugin
     \<Rightarrow> 'e plugin outcome" where
  "undoBranch api nextIndex nextState i st c blockCount w =
     (if blockWasDeleted st nextState then Returned (insertDeletedBlock api st nextState i w)
      else case contentWasCopied st nextState i of
        Inl e \<Rightarrow> Threw e w
      | Inr True \<Rightarrow> Returned (call_setToBlock api i (call_render api st w))
      | Inr False \<Rightarrow>
          if i < nextIndex \<and> blockWasSkipped st nextState
            then Returned (call_setToBlock api i (call_delete api nextIndex w))
          else if blockCount > int (length st)
            then setCaretIndex api i c (call_render api st w)
          else if blockWasDropped st nextState
            then Returned (call_setToBlock api i (call_render api st w))
          else if contentChangedInNoFocusBlock i nextIndex
            then (case blocks_getBlockByIndex api (editor w) nextIndex of
                    None \<Rightarrow> Threw TypeError w
                  | Some b \<Rightarrow>
                      (case js_nth st nextIndex of
                         None \<Rightarrow> Threw TypeError w
                       | Some s \<Rightarrow> setCaretIndex api i c (call_update api (Some b) (block_data s) w)))
          else Returned w)"

text \<open>
  The last statement of \<^verbatim>\<open>undo\<close> and of \<^verbatim>\<open>redo\<close>: the live block at \<open>i\<close>, when there
  is one, gets the data of the snapshot's block at \<open>i\<close>.
\<close>

definition syncFocused ::
    "'e api \<Rightarrow> int \<Rightarrow> block list \<Rightarrow> int option \<Rightarrow> 'e plugin \<Rightarrow> 'e plugin outcome" where
  "syncFocused api i st c w =
     (case blocks_getBlockByIndex api (editor w) i of
        None \<Rightarrow> Returned w
      | Some b \<Rightarrow>
          (case js_nth st i of
             None \<Rightarrow> Threw TypeError w
           | Some s \<Rightarrow> setCaretIndex api i c (call_update api (Some b) (block_data s) w)))"

text \<open>
  \<^verbatim>\<open>this.stack[this.position].index = index\<close>: the entry is changed in place, and with it
  \<^verbatim>\<open>initialItem\<close> when that is the same object.
\<close>

definition setEntryIndex :: "int \<Rightarrow> 'e plugin \<Rightarrow> 'e plugin" where
  "setEntryIndex i w =
     w\<lparr>stack := (stack w)[nat (position w) := (stack w ! nat (position w))\<lparr>index := i\<rparr>],
       initialItem := (if initialItemInStack w \<and> position w = 0
                       then map_option (\<lambda>it. it\<lparr>index := i\<rparr>) (initialItem w)
                       else initialItem w)\<rparr>"

definition undo :: "'e api \<Rightarrow> 'e plugin \<Rightarrow> 'e plugin outcome" where
  "undo api w =
     (if canUndo w then
        (case js_nth (stack w) (position w) of
           None \<Rightarrow> Threw TypeError w
         | Some nxt \<Rightarrow>
             (let w1 = w\<lparr>position := position w - 1, shouldSaveHistory := False\<rparr> in
              case js_nth (stack w1) (position w1) of
                None \<Rightarrow> Threw TypeError w1
              | Some cur \<Rightarrow>
                  (let w2 = emit OnUpdate w1;
                       blockCount = blocks_getBlocksCount api (editor w2);
                       missing = (js_nth (state cur) (index cur) = None);
                       i = (if missing then index cur - 1 else index cur);
                       w3 = (if missing then setEntryIndex i w2 else w2)
                   in and_then
                        (undoBranch api (index nxt) (state nxt) i (state cur) (caretIndex cur) blockCount w3)
                        (syncFocused api i (state cur) (caretIndex cur)))))
      else Returned w)"

section \<open>The redo executor\<close>

definition insertBlock :: "'e api \<Rightarrow> block list \<Rightarrow> int \<Rightarrow> 'e plugin \<Rightarrow> 'e plugin outcome" where
  "insertBlock api st i w =
     (case js_nth st i of
        None \<Rightarrow> Threw TypeError w
      | Some b \<Rightarrow> Returned (call_insert api (block_type b) (block_data b) i w))"

definition updateModifiedBlock :: "'e api \<Rightarrow> block list \<Rightarrow> int \<Rightarrow> 'e plugin \<Rightarrow> 'e plugin outcome" where
  "updateModifiedBlock api st i w =
     (case js_nth st (i - 1) of
        None \<Rightarrow> Threw TypeError w
      | Some b \<Rightarrow>
          if blocks_getById api (editor w) (block_id b)
          then Returned (call_update api (block_id b) (block_data b) w)
          else Returned (call_render api st w))"

text \<open>
  \<^verbatim>\<open>insertSkippedBlocks\<close> does not await \<^verbatim>\<open>insertBlock\<close>: each call runs up to its
  \<^verbatim>\<open>blocks.insert\<close> at once, and a rejection would be lost (there is none, the loop
  stays inside \<^verbatim>\<open>state\<close>).
\<close>

definition insertSkippedBlocks ::
    "'e api \<Rightarrow> block list \<Rightarrow> block list \<Rightarrow> int \<Rightarrow> 'e plugin \<Rightarrow> 'e plugin outcome" where
  "insertSkippedBlocks api prevState st i w =
     (let w1 = fold (\<lambda>k v. world_of (insertBlock api st (int k) v)) [length prevState..<length st] w
      in if stringify_opt (js_nth prevState (i - 1)) \<noteq> stringify_opt (js_nth st (i - 1))
         then updateModifiedBlock api st i w1
         else Returned w1)"

text \<open>
  The callback of \<^verbatim>\<open>prevState.findIndex\<close> in \<^verbatim>\<open>redo\<close>:
  \<^verbatim>\<open>!state.some((stateBlock) => stateBlock.id === block.id) || (state[i] && state[i].id !== block.id)\<close>.
\<close>

definition wasRemovedAt :: "block list \<Rightarrow> block list \<Rightarrow> nat \<Rightarrow> bool" where
  "wasRemovedAt prevState st k =
     (\<not> list_ex (\<lambda>stateBlock. block_id stateBlock = block_id (prevState ! k)) st
      \<or> (case js_nth st (int k) of
           None \<Rightarrow> False
         | Some s \<Rightarrow> block_id s \<noteq> block_id (prevState ! k)))"

definition redoBranch ::
    "'e api \<Rightarrow> block list \<Rightarrow> int \<Rightarrow> block list \<Rightarrow> 'e plugin \<Rightarrow> 'e plugin outcome" where
  "redoBranch api prevState i st w =
     (if blockWasDeleted prevState st then
        (case find (wasRemovedAt prevState st) [0..<length prevState] of
           None \<Rightarrow> Returned w
         | Some deletedIndex \<Rightarrow>
             Returned (call_setToBlock api (min (int deletedIndex) (int (length st) - 1))
                        (call_delete api (int deletedIndex) w)))
      else if blockWasSkipped st prevState then
        and_then (insertSkippedBlocks api prevState st i w)
                 (\<lambda>v. Returned (call_setToBlock api i v))
      else if blockWasDropped st prevState \<and> position w \<noteq> 1 then
        Returned (call_setToBlock api i (call_render api st w))
      else Returned w)"

definition redo :: "'e api \<Rightarrow> 'e plugin \<Rightarrow> 'e plugin outcome" where
  "redo api w =
     (if canRedo w then
        (let w1 = w\<lparr>position := position w + 1, shouldSaveHistory := False\<rparr> in
         case js_nth (stack w1) (position w1) of
           None \<Rightarrow> Threw TypeError w1
         | Some cur \<Rightarrow>
             (case js_nth (stack w1) (position w1 - 1) of
                None \<Rightarrow> Threw TypeError w1
              | Some prev \<Rightarrow>
                  and_then (redoBranch api (state prev) (index cur) (state cur) w1)
                    (\<lambda>v. syncFocused api (index cur) (state cur) (caretIndex cur) (emit OnUpdate v))))
      else Returned w)"

section \<open>Sequences of operations\<close>

text \<open>
  A caller that goes on after a rejected \<^verbatim>\<open>undo\<close> or \<^verbatim>\<open>redo\<close> finds the object as the
  throw left it.
\<close>

definition undo_step :: "'e api \<Rightarrow> 'e plugin \<Rightarrow> 'e plugin" where
  "undo_step api w = world_of (undo api w)"

definition redo_step :: "'e api \<Rightarrow> 'e plugin \<Rightarrow> 'e plugin" where
  "redo_step api w = world_of (redo api w)"

text \<open>
  A sequence of commits. Between two commits the user edits the document, so each
  snapshot comes with the live editor that \<^verbatim>\<open>save\<close> finds. The result is \<open>None\<close> when a
  \<^verbatim>\<open>save\<close> does not return or throws.
\<close>

fun commit_all :: "'e api \<Rightarrow> (block list \<times> 'e) list \<Rightarrow> 'e plugin \<Rightarrow> 'e plugin option" where
  "commit_all api [] w = Some w"
| "commit_all api (c # cs) w =
     (case save api (fst c) (w\<lparr>editor := snd c\<rparr>) of
        Some (Returned v) \<Rightarrow> commit_all api cs v
      | _ \<Rightarrow> None)"

text \<open>The worlds after each of a sequence of \<^verbatim>\<open>save\<close> calls, whatever their outcome.\<close>

fun save_all :: "'e api \<Rightarrow> (block list \<times> 'e) list \<Rightarrow> 'e plugin \<Rightarrow> 'e plugin list option" where
  "save_all api [] w = Some []"
| "save_all api (c # cs) w =
     (case save api (fst c) (w\<lparr>editor := snd c\<rparr>) of
        None \<Rightarrow> None
      | Some r \<Rightarrow> map_option (\<lambda>vs. world_of r # vs) (save_all api cs (world_of r)))"

section \<open>Properties of a state\<close>

text \<open>The invariant of the history stack: it is not empty and the position is inside it.\<close>

definition stack_ok :: "'e plugin \<Rightarrow> bool" where
  "stack_ok w = (stack w \<noteq> [] \<and> 0 \<le> position w \<and> position w < int (length (stack w)))"

text \<open>The retention bound that the code keeps: \<^verbatim>\<open>count()\<close> is at most \<^verbatim>\<open>maxLength\<close>.\<close>

definition within_limit :: "'e plugin \<Rightarrow> bool" where
  "within_limit w = (int (length (stack w)) \<le> maxLength w + 1)"

text \<open>The last \<open>n\<close> elements of a list.\<close>

definition lastn :: "nat \<Rightarrow> 'a list \<Rightarrow> 'a list" where
  "lastn n xs = drop (length xs - n) xs"

text \<open>The events recorded between two states, and the calls among them.\<close>

definition new_events :: "'e plugin \<Rightarrow> 'e plugin \<Rightarrow> (call \<times> bool) list" where
  "new_events w v = drop (length (trace w)) (trace v)"

definition new_calls :: "'e plugin \<Rightarrow> 'e plugin \<Rightarrow> call list" where
  "new_calls w v = map fst (new_events w v)"

text \<open>
  \<open>v\<close> comes from \<open>w\<close> by calls on the collaborators only: no field of the plugin differs.
\<close>

definition only_calls :: "'e plugin \<Rightarrow> 'e plugin \<Rightarrow> bool" where
  "only_calls w v =
     (stack v = stack w \<and> position v = position w \<and> maxLength v = maxLength w
      \<and> shouldSaveHistory v = shouldSaveHistory w \<and> readOnly v = readOnly w
      \<and> initialItem v = initialItem w \<and> initialItemInStack v = initialItemInStack w
      \<and> defaultBlock v = defaultBlock w
      \<and> take (length (trace w)) (trace v) = trace w
      \<and> list_all (\<lambda>ev. snd ev = shouldSaveHistory w) (new_events w v))"

text \<open>
  What \<^verbatim>\<open>save\<close> keeps of the stack before it pushes: the front is cut when the position
  has reached the limit, and the entries after the position are sliced away.
\<close>

definition kept :: "'e plugin \<Rightarrow> entry list" where
  "kept w =
     (let stack1 = (if position w \<ge> maxLength w then lastn (nat (maxLength w)) (stack w) else stack w)
      in take (nat (min (position w) (int (length stack1) - 1) + 1)) stack1)"

text \<open>Deep equality of two snapshots: of the arrays of their blocks.\<close>

definition deep_equal_blocks :: "block list \<Rightarrow> block list \<Rightarrow> bool" where
  "deep_equal_blocks st st' = deep_equal (stringify st) (stringify st')"

text \<open>The calls that change the block structure of the live document.\<close>

fun structural :: "call \<Rightarrow> bool" where
  "structural (Insert ty d i) = True"
| "structural (Delete i) = True"
| "structural (Render st) = True"
| "structural c = False"

section \<open>A small editor\<close>

text \<open>
  An instance of the API to run the model on: the live document is a list of blocks,
  with the index of the focused block, the caret offset in it and the presence of the
  toolbox. An inserted block gets an id taken from a counter.
\<close>

datatype list_editor =
  ListEditor (le_blocks: "block list") (le_current: int) (le_caret: int) (le_toolbox: bool)
    (le_fresh: nat)

definition set_blocks :: "block list \<Rightarrow> list_editor \<Rightarrow> list_editor" where
  "set_blocks bs e = ListEditor bs (le_current e) (le_caret e) (le_toolbox e) (le_fresh e)"

definition set_current :: "int \<Rightarrow> list_editor \<Rightarrow> list_editor" where
  "set_current i e = ListEditor (le_blocks e) i (le_caret e) (le_toolbox e) (le_fresh e)"

definition list_api :: "list_editor api" where
  "list_api = \<lparr>
     blocks_getCurrentBlockIndex = le_current,
     blocks_getBlocksCount = (\<lambda>e. int (length (le_blocks e))),
     blocks_getBlockByIndex = (\<lambda>e i. case js_nth (le_blocks e) i of
                                        None \<Rightarrow> None
                                      | Some b \<Rightarrow> Some (case block_id b of None \<Rightarrow> [] | Some s \<Rightarrow> s)),
     blocks_getById = (\<lambda>e b. list_ex (\<lambda>x. block_id x = b) (le_blocks e)),
     blocks_insert = (\<lambda>ty d i e.
        ListEditor (take (nat i) (le_blocks e)
                    @ [\<lparr>block_id = Some (replicate (Suc (le_fresh e)) CHR ''n''),
                        block_type = ty, block_data = d,
                        block_rest = [], block_order = [''id'', ''type'', ''data'']\<rparr>]
                    @ drop (nat i) (le_blocks e))
                   i (le_caret e) (le_toolbox e) (Suc (le_fresh e))),
     blocks_delete = (\<lambda>i e. set_blocks (take (nat i) (le_blocks e) @ drop (Suc (nat i)) (le_blocks e)) e),
     blocks_update = (\<lambda>b d e. set_blocks (map (\<lambda>x. if block_id x = b then x\<lparr>block_data := d\<rparr> else x)
                                              (le_blocks e)) e),
     blocks_render = set_blocks,
     caret_setToBlock = set_current,
     caret_getPos = (\<lambda>e i. le_caret e),
     holder_content = (\<lambda>e i. 0 \<le> i \<and> i < int (length (le_blocks e))),
     holder_toolbox = le_toolbox,
     editor_save = le_blocks\<rparr>"

section \<open>Sample data\<close>

text \<open>Three blocks, live editors and plugin objects to run the model on.\<close>

definition block_a :: block where
  "block_a = \<lparr>block_id = Some ''a'', block_type = ''paragraph'', block_data = [(''text'', JStr ''A'')],
               block_rest = [], block_order = [''id'', ''type'', ''data'']\<rparr>"

definition block_b :: block where
  "block_b = \<lparr>block_id = Some ''b'', block_type = ''paragraph'', block_data = [(''text'', JStr ''B'')],
               block_rest = [], block_order = [''id'', ''type'', ''data'']\<rparr>"

definition block_c :: block where
  "block_c = \<lparr>block_id = Some ''c'', block_type = ''header'',
               block_data = [(''text'', JStr ''C''), (''level'', JNum 2)],
               block_rest = [], block_order = [''id'', ''type'', ''data'']\<rparr>"

text \<open>A live editor with the toolbox present, showing \<open>bs\<close>, the focus on block \<open>i\<close>.\<close>

definition live :: "block list \<Rightarrow> int \<Rightarrow> list_editor" where
  "live bs i = ListEditor bs i 0 True 0"

text \<open>\<^verbatim>\<open>new Undo({ editor, maxLength })\<close> on an empty editor.\<close>

definition fresh :: "bool \<Rightarrow> int option \<Rightarrow> list_editor plugin" where
  "fresh ro m = constructor (live [] 0) ''paragraph'' ro m"

text \<open>A read-only plugin in the middle of a history of three entries.\<close>

definition frozen :: "list_editor plugin" where
  "frozen = \<lparr>
     stack = [\<lparr>index = 0, state = [block_a], caretIndex = None\<rparr>,
              \<lparr>index = 1, state = [block_a, block_b], caretIndex = Some 1\<rparr>,
              \<lparr>index = 2, state = [block_a, block_b, block_c], caretIndex = None\<rparr>],
     position = 1, maxLength = 30, shouldSaveHistory = True, readOnly = True,
     initialItem = None, initialItemInStack = False, defaultBlock = ''paragraph'',
     editor = live [block_a, block_b] 1, trace = []\<rparr>"

text \<open>
  \<^verbatim>\<open>new Undo({ editor, maxLength: 1 })\<close>, the editor now showing one paragraph; the same
  plugin after that paragraph has been committed, and after it has been committed twice.
\<close>

definition small :: "list_editor plugin" where
  "small = (fresh False (Some 1))\<lparr>editor := live [block_a] 0\<rparr>"

definition at_capacity :: "list_editor plugin" where
  "at_capacity = \<lparr>
     stack = [\<lparr>index = 0, state = [\<lparr>block_id = None, block_type = ''paragraph'', block_data = [],
       block_rest = [], block_order = [''type'', ''data'']\<rparr>],
               caretIndex = None\<rparr>,
              \<lparr>index = 0, state = [block_a], caretIndex = Some 0\<rparr>],
     position = 1, maxLength = 1, shouldSaveHistory = True, readOnly = False,
     initialItem = None, initialItemInStack = False, defaultBlock = ''paragraph'',
     editor = live [block_a] 0, trace = [(OnUpdate, True), (OnUpdate, True)]\<rparr>"

definition at_capacity_again :: "list_editor plugin" where
  "at_capacity_again = \<lparr>
     stack = [\<lparr>index = 0, state = [block_a], caretIndex = Some 0\<rparr>,
              \<lparr>index = 0, state = [block_a], caretIndex = Some 0\<rparr>],
     position = 1, maxLength = 1, shouldSaveHistory = True, readOnly = False,
     initialItem = None, initialItemInStack = False, defaultBlock = ''paragraph'',
     editor = live [block_a] 0, trace = [(OnUpdate, True), (OnUpdate, True), (OnUpdate, True)]\<rparr>"

text \<open>
  The plugin \<open>at_capacity\<close> one step back in its history; and after an \<^verbatim>\<open>undo\<close>, with
  the live editor as the user may find it next: editable, or without its toolbox.
\<close>

definition rewound :: "list_editor plugin" where
  "rewound = at_capacity\<lparr>position := 0\<rparr>"

definition undone :: "list_editor plugin" where
  "undone = (undo_step list_api at_capacity)\<lparr>editor := live [block_a] 0\<rparr>"

definition muted :: "list_editor plugin" where
  "muted = (undo_step list_api at_capacity)\<lparr>editor := ListEditor [block_a] 0 0 False 0\<rparr>"

text \<open>The plugin \<open>small\<close> while the editor shows what the current history entry holds.\<close>

definition unchanged :: "list_editor plugin" where
  "unchanged = small\<lparr>editor := live [\<lparr>block_id = None, block_type = ''paragraph'', block_data = [],
       block_rest = [], block_order = [''type'', ''data'']\<rparr>] 0\<rparr>"

text \<open>
  A plugin with the default limit while the editor shows three blocks, the focus on the
  second; and the same plugin after that document and then the document without its
  second block have been committed.
\<close>

definition editing :: "list_editor plugin" where
  "editing = (fresh False None)\<lparr>editor := live [block_a, block_b, block_c] 1\<rparr>"

definition deleted_b :: "list_editor plugin" where
  "deleted_b = \<lparr>
     stack = [\<lparr>index = 0, state = [\<lparr>block_id = None, block_type = ''paragraph'', block_data = [],
       block_rest = [], block_order = [''type'', ''data'']\<rparr>],
               caretIndex = None\<rparr>,
              \<lparr>index = 1, state = [block_a, block_b, block_c], caretIndex = Some 0\<rparr>,
              \<lparr>index = 1, state = [block_a, block_c], caretIndex = Some 0\<rparr>],
     position = 2, maxLength = 30, shouldSaveHistory = True, readOnly = False,
     initialItem = None, initialItemInStack = False, defaultBlock = ''paragraph'',
     editor = live [block_a, block_c] 1,
     trace = [(OnUpdate, True), (OnUpdate, True), (OnUpdate, True)]\<rparr>"

text \<open>
  The block \<open>block_a\<close> as an object whose keys were inserted in another order; and a
  plugin given that block as its initial data by \<^verbatim>\<open>initialize\<close>, while the editor shows
  the block with its keys in the order in which the editor writes them.
\<close>

definition block_a_reordered :: block where
  "block_a_reordered = block_a\<lparr>block_order := [''type'', ''data'', ''id'']\<rparr>"

definition initialised :: "list_editor plugin" where
  "initialised = (initialize [block_a_reordered] (fresh False None))\<lparr>editor := live [block_a] 0\<rparr>"

section \<open>Basic facts\<close>

lemma emit_fields [simp]:
  "stack (emit c w) = stack w"
  "position (emit c w) = position w"
  "maxLength (emit c w) = maxLength w"
  "shouldSaveHistory (emit c w) = shouldSaveHistory w"
  "readOnly (emit c w) = readOnly w"
  "initialItem (emit c w) = initialItem w"
  "initialItemInStack (emit c w) = initialItemInStack w"
  "defaultBlock (emit c w) = defaultBlock w"
  "editor (emit c w) = editor w"
  "trace (emit c w) = trace w @ [(c, shouldSaveHistory w)]"
  by (simp_all add: emit_def)

lemma only_calls_refl: "only_calls w w"
  by (simp add: only_calls_def new_events_def)

lemma new_events_append:
  assumes "take (length (trace w)) (trace v) = trace w" "take (length (trace v)) (trace u) = trace v"
  shows "take (length (trace w)) (trace u) = trace w"
    and "new_events w u = new_events w v @ new_events v u"
proof -
  from assms(1) have v: "trace v = trace w @ new_events w v"
    by (metis append_take_drop_id new_events_def)
  from assms(2) have u: "trace u = trace v @ new_events v u"
    by (metis append_take_drop_id new_events_def)
  from u v have uw: "trace u = trace w @ (new_events w v @ new_events v u)" by simp
  then show "take (length (trace w)) (trace u) = trace w" by simp
  from uw show "new_events w u = new_events w v @ new_events v u"
    by (simp add: new_events_def [of w u])
qed

lemma only_calls_trans:
  assumes "only_calls w v" "only_calls v u"
  shows "only_calls w u"
  using assms new_events_append [of w v u]
  by (simp add: only_calls_def)

lemma only_calls_emit: "only_calls w (emit c w)"
  by (simp add: only_calls_def new_events_def)

lemma only_calls_call:
  "only_calls w (call_insert api ty d i w)"
  "only_calls w (call_delete api i w)"
  "only_calls w (call_update api b d w)"
  "only_calls w (call_render api st w)"
  "only_calls w (call_setToBlock api i w)"
  by (simp_all add: only_calls_def new_events_def call_insert_def call_delete_def
      call_update_def call_render_def call_setToBlock_def)

lemma only_calls_and_then:
  assumes "only_calls w (world_of m)" "\<And>v. only_calls v (world_of (f v))"
  shows "only_calls w (world_of (and_then m f))"
proof (cases m)
  case (Returned v)
  with assms show ?thesis by (auto intro: only_calls_trans)
next
  case (Threw e v)
  with assms show ?thesis by simp
qed

lemma only_calls_setCaretIndex: "only_calls w (world_of (setCaretIndex api i c w))"
  by (simp add: setCaretIndex_def only_calls_emit only_calls_call only_calls_refl)

lemma only_calls_insertDeletedBlock: "only_calls w (insertDeletedBlock api st cst i w)"
  by (auto simp: insertDeletedBlock_def only_calls_refl split: option.splits
      intro: only_calls_trans only_calls_call)

lemma only_calls_undoBranch: "only_calls w (world_of (undoBranch api ni ns i st c bc w))"
  by (auto simp: undoBranch_def only_calls_refl only_calls_insertDeletedBlock
      split: option.splits sum.splits bool.splits
      intro: only_calls_trans [OF only_calls_call(4)] only_calls_trans [OF only_calls_call(2)]
        only_calls_trans [OF only_calls_call(3)] only_calls_call only_calls_setCaretIndex)

lemma only_calls_syncFocused: "only_calls w (world_of (syncFocused api i st c w))"
  by (auto simp: syncFocused_def only_calls_refl split: option.splits
      intro: only_calls_trans [OF only_calls_call(3)] only_calls_setCaretIndex)

lemma only_calls_insertBlock: "only_calls w (world_of (insertBlock api st i w))"
  by (auto simp: insertBlock_def only_calls_refl only_calls_call split: option.splits)

lemma only_calls_fold_insertBlock:
  "only_calls w (fold (\<lambda>k v. world_of (insertBlock api st (int k) v)) ks w)"
proof (induction ks arbitrary: w)
  case Nil
  show ?case by (simp add: only_calls_refl)
next
  case (Cons k ks)
  show ?case using only_calls_trans [OF only_calls_insertBlock Cons.IH] by simp
qed

lemma only_calls_updateModifiedBlock: "only_calls w (world_of (updateModifiedBlock api st i w))"
  by (auto simp: updateModifiedBlock_def only_calls_refl only_calls_call split: option.splits)

lemma only_calls_insertSkippedBlocks: "only_calls w (world_of (insertSkippedBlocks api ps st i w))"
  unfolding insertSkippedBlocks_def Let_def
  using only_calls_fold_insertBlock only_calls_trans only_calls_updateModifiedBlock
  by (cases "stringify_opt (js_nth ps (i - 1)) \<noteq> stringify_opt (js_nth st (i - 1))") fastforce+

lemma only_calls_redoBranch: "only_calls w (world_of (redoBranch api ps i st w))"
proof -
  have "only_calls w (world_of (and_then (insertSkippedBlocks api ps st i w)
                 (\<lambda>v. Returned (call_setToBlock api i v))))"
    by (rule only_calls_and_then) (simp_all add: only_calls_insertSkippedBlocks only_calls_call)
  then show ?thesis
    by (auto simp: redoBranch_def only_calls_refl split: option.splits
      intro: only_calls_trans [OF only_calls_call(2)] only_calls_trans [OF only_calls_call(4)]
        only_calls_call)
qed

lemma js_nth_Some [simp]: "0 \<le> i \<Longrightarrow> i < int (length xs) \<Longrightarrow> js_nth xs i = Some (xs ! nat i)"
  by (simp add: js_nth_def)

lemma js_nth_None_iff: "js_nth xs i = None \<longleftrightarrow> \<not> (0 \<le> i \<and> i < int (length xs))"
  by (simp add: js_nth_def)

lemma map_update_same: "(map f xs)[n := f (xs ! n)] = map f xs"
  by (cases "n < length xs") (simp_all add: list_update_same_conv list_update_beyond)

lemma map_state_setEntryIndex [simp]: "map state (stack (setEntryIndex i w)) = map state (stack w)"
  by (simp add: setEntryIndex_def map_update map_update_same)

lemma setEntryIndex_fields [simp]:
  "position (setEntryIndex i w) = position w"
  "maxLength (setEntryIndex i w) = maxLength w"
  "shouldSaveHistory (setEntryIndex i w) = shouldSaveHistory w"
  "readOnly (setEntryIndex i w) = readOnly w"
  "trace (setEntryIndex i w) = trace w"
  "editor (setEntryIndex i w) = editor w"
  "length (stack (setEntryIndex i w)) = length (stack w)"
  by (simp_all add: setEntryIndex_def)

lemma undo_decompose:
  assumes "canUndo w" "stack_ok w"
  shows "\<exists>v. only_calls v (undo_step api w) \<and> position v = position w - 1
           \<and> \<not> shouldSaveHistory v \<and> map state (stack v) = map state (stack w)
           \<and> length (stack v) = length (stack w)
           \<and> readOnly v = readOnly w \<and> maxLength v = maxLength w
           \<and> trace v = trace w @ [(OnUpdate, False)]"
proof -
  from assms have p: "0 < position w" "position w < int (length (stack w))"
    by (simp_all add: canUndo_def stack_ok_def)
  define nxt where "nxt = stack w ! nat (position w)"
  define w1 where "w1 = w\<lparr>position := position w - 1, shouldSaveHistory := False\<rparr>"
  define cur where "cur = stack w ! nat (position w - 1)"
  define missing where "missing = (js_nth (state cur) (index cur) = None)"
  define i where "i = (if missing then index cur - 1 else index cur)"
  define w3 where "w3 = (if missing then setEntryIndex i (emit OnUpdate w1) else emit OnUpdate w1)"
  have "undo api w = and_then
          (undoBranch api (index nxt) (state nxt) i (state cur) (caretIndex cur)
             (blocks_getBlocksCount api (editor w)) w3)
          (syncFocused api i (state cur) (caretIndex cur))"
    using assms(1) p
    by (simp add: undo_def Let_def nxt_def w1_def cur_def missing_def i_def w3_def)
  then have "only_calls w3 (undo_step api w)"
    by (simp add: undo_step_def only_calls_and_then only_calls_undoBranch only_calls_syncFocused)
  moreover have "position w3 = position w - 1" "\<not> shouldSaveHistory w3"
    "map state (stack w3) = map state (stack w)" "length (stack w3) = length (stack w)"
    "readOnly w3 = readOnly w" "maxLength w3 = maxLength w"
    "trace w3 = trace w @ [(OnUpdate, False)]"
    by (simp_all add: w3_def w1_def)
  ultimately show ?thesis by blast
qed

lemma redo_decompose:
  assumes "canRedo w" "stack_ok w"
  shows "only_calls (w\<lparr>position := position w + 1, shouldSaveHistory := False\<rparr>) (redo_step api w)"
proof -
  from assms have p: "0 \<le> position w" "position w + 1 < int (length (stack w))"
    by (simp_all add: canRedo_def stack_ok_def count_def)
  define w1 where "w1 = w\<lparr>position := position w + 1, shouldSaveHistory := False\<rparr>"
  define cur where "cur = stack w ! nat (position w + 1)"
  define prev where "prev = stack w ! nat (position w)"
  have r: "redo api w = and_then (redoBranch api (state prev) (index cur) (state cur) w1)
             (\<lambda>v. syncFocused api (index cur) (state cur) (caretIndex cur) (emit OnUpdate v))"
    using assms(1) p
    by (simp add: redo_def Let_def w1_def cur_def prev_def)
  have "only_calls v (world_of (syncFocused api (index cur) (state cur) (caretIndex cur) (emit OnUpdate v)))"
    for v :: "'a plugin"
    using only_calls_trans [OF only_calls_emit only_calls_syncFocused] .
  then have "only_calls w1 (redo_step api w)"
    unfolding redo_step_def r
    by (intro only_calls_and_then only_calls_redoBranch)
  then show ?thesis by (simp add: w1_def)
qed

lemma only_calls_events:
  assumes "only_calls w v"
  shows "trace v = trace w @ new_events w v"
  using assms by (metis append_take_drop_id new_events_def only_calls_def)

lemma undo_facts:
  assumes "canUndo w" "stack_ok w"
  shows "position (undo_step api w) = position w - 1"
    and "\<not> shouldSaveHistory (undo_step api w)"
    and "map state (stack (undo_step api w)) = map state (stack w)"
    and "length (stack (undo_step api w)) = length (stack w)"
    and "readOnly (undo_step api w) = readOnly w"
    and "maxLength (undo_step api w) = maxLength w"
    and "take (length (trace w)) (trace (undo_step api w)) = trace w"
    and "list_all (\<lambda>ev. \<not> snd ev) (new_events w (undo_step api w))"
proof -
  from undo_decompose [OF assms, of api] obtain v where
    v: "only_calls v (undo_step api w)" "position v = position w - 1"
      "\<not> shouldSaveHistory v" "map state (stack v) = map state (stack w)"
      "length (stack v) = length (stack w)"
      "readOnly v = readOnly w" "maxLength v = maxLength w"
      "trace v = trace w @ [(OnUpdate, False)]"
    by blast
  from v show "position (undo_step api w) = position w - 1"
    "\<not> shouldSaveHistory (undo_step api w)"
    "map state (stack (undo_step api w)) = map state (stack w)"
    "length (stack (undo_step api w)) = length (stack w)"
    "readOnly (undo_step api w) = readOnly w"
    "maxLength (undo_step api w) = maxLength w"
    by (simp_all add: only_calls_def)
  have t: "trace (undo_step api w) = trace w @ (OnUpdate, False) # new_events v (undo_step api w)"
    using only_calls_events [OF v(1)] v(8) by simp
  then show "take (length (trace w)) (trace (undo_step api w)) = trace w" by simp
  from t have "new_events w (undo_step api w) = (OnUpdate, False) # new_events v (undo_step api w)"
    by (simp add: new_events_def [of w])
  then show "list_all (\<lambda>ev. \<not> snd ev) (new_events w (undo_step api w))"
    using v(1,3) by (simp add: only_calls_def)
qed

lemma redo_facts:
  assumes "canRedo w" "stack_ok w"
  shows "position (redo_step api w) = position w + 1"
    and "\<not> shouldSaveHistory (redo_step api w)"
    and "stack (redo_step api w) = stack w"
    and "readOnly (redo_step api w) = readOnly w"
    and "maxLength (redo_step api w) = maxLength w"
    and "take (length (trace w)) (trace (redo_step api w)) = trace w"
    and "list_all (\<lambda>ev. \<not> snd ev) (new_events w (redo_step api w))"
  using redo_decompose [OF assms, of api]
  by (simp_all add: only_calls_def new_events_def)

lemma undo_noop: "\<not> canUndo w \<Longrightarrow> undo api w = Returned w"
  by (simp add: undo_def)

lemma redo_noop: "\<not> canRedo w \<Longrightarrow> redo api w = Returned w"
  by (simp add: redo_def)

subsection \<open>The truncation loop\<close>

lemma truncate_closed: "0 \<le> limit \<Longrightarrow> truncate stk limit = Some (lastn (nat limit) stk)"
  unfolding lastn_def
proof (induction stk)
  case Nil
  then show ?case by (subst truncate.simps) simp
next
  case (Cons x xs)
  show ?case
  proof (cases "int (length (x # xs)) > limit")
    case True
    then have "truncate (x # xs) limit = truncate xs limit"
      by (subst truncate.simps) simp
    also have "\<dots> = Some (drop (length xs - nat limit) xs)" using Cons by simp
    also have "drop (length xs - nat limit) xs = drop (length (x # xs) - nat limit) (x # xs)"
      using True Cons.prems by (simp add: Suc_diff_le nat_le_iff)
    finally show ?thesis .
  next
    case False
    then show ?thesis by (subst truncate.simps) simp
  qed
qed

lemma truncate_Some_limit:
  assumes "truncate stk limit = Some r"
  shows "0 \<le> limit"
proof (rule truncate.raw_induct [where P = "\<lambda>s l y. 0 \<le> l", OF _ assms])
  fix f :: "'a list \<Rightarrow> int \<Rightarrow> 'a list option" and s l y
  assume ih: "\<And>s l y. f s l = Some y \<Longrightarrow> 0 \<le> l"
    and eq: "(if l < int (length s) then f (tl s) l else Some s) = Some y"
  show "0 \<le> l"
  proof (cases "l < int (length s)")
    case True
    with eq have "f (tl s) l = Some y" by simp
    then show ?thesis by (rule ih)
  next
    case False
    then show ?thesis by simp
  qed
qed

subsection \<open>What a save that returns has done\<close>

lemma save_limit:
  assumes "save api st w = Some r" "0 \<le> position w"
  shows "0 \<le> maxLength w"
proof (cases "position w \<ge> maxLength w")
  case True
  with assms(1) obtain s1 where "truncate (stack w) (maxLength w) = Some s1"
    by (cases "truncate (stack w) (maxLength w)") (simp_all add: save_def)
  then show ?thesis by (rule truncate_Some_limit)
next
  case False
  with assms(2) show ?thesis by simp
qed

text \<open>With a negative limit \<^verbatim>\<open>save\<close> does not return: the truncation loop never ends.\<close>

lemma save_diverges:
  assumes "maxLength w < 0" "0 \<le> position w"
  shows "save api st w = None"
proof (cases "save api st w")
  case None
  then show ?thesis .
next
  case (Some r)
  then have "0 \<le> maxLength w" using assms(2) by (rule save_limit)
  with assms(1) show ?thesis by simp
qed


lemma save_unfold:
  assumes m: "0 \<le> maxLength w" and p: "0 \<le> position w"
  shows "\<exists>i b caret. save api st w =
           (case caret of
              Inl e \<Rightarrow> Some (Threw e (w\<lparr>stack := kept w, position := int (length (kept w)) - 1,
                                         initialItemInStack := b\<rparr>))
            | Inr c \<Rightarrow> Some (Returned (emit OnUpdate
                         (w\<lparr>stack := kept w @ [\<lparr>index = i, state = st, caretIndex = c\<rparr>],
                            position := int (length (kept w)), initialItemInStack := b\<rparr>))))"
proof -
  define stack1 where
    "stack1 = (if position w \<ge> maxLength w then lastn (nat (maxLength w)) (stack w) else stack w)"
  define position1 where "position1 = min (position w) (int (length stack1) - 1)"
  have t: "(if position w \<ge> maxLength w then truncate (stack w) (maxLength w) else Some (stack w))
           = Some stack1"
    using m by (simp add: stack1_def truncate_closed)
  have p1: "- 1 \<le> position1" "position1 + 1 \<le> int (length stack1)"
    using p by (simp_all add: position1_def)
  then have s: "slice0 stack1 (position1 + 1) = kept w"
    by (simp add: slice0_def kept_def Let_def stack1_def position1_def)
  have l: "int (length (kept w)) = position1 + 1"
    using p1 unfolding s [symmetric] slice0_def by simp
  then have l': "position1 = int (length (kept w)) - 1" by simp
  define idx where "idx = blocks_getCurrentBlockIndex api (editor w)"
  define i where "i = (if js_nth st idx = None
                       then idx - (blocks_getBlocksCount api (editor w) - int (length st)) else idx)"
  define b where "b = (initialItemInStack w \<and> length stack1 = length (stack w) \<and> kept w \<noteq> [])"
  define w2 where "w2 = w\<lparr>stack := kept w, position := int (length (kept w)) - 1,
                          initialItemInStack := b\<rparr>"
  define caret where "caret = (case js_nth st i of
                          None \<Rightarrow> Inr None
                        | Some b \<Rightarrow> if block_type b = ''paragraph'' \<or> block_type b = ''header''
                                    then map_sum (\<lambda>e. e) Some (getCaretIndex api idx w2)
                                    else Inr None)"
  have "save api st w =
           (case caret of
              Inl e \<Rightarrow> Some (Threw e w2)
            | Inr c \<Rightarrow> Some (Returned (emit OnUpdate
                         (w2\<lparr>stack := kept w @ [\<lparr>index = i, state = st, caretIndex = c\<rparr>],
                            position := int (length (kept w))\<rparr>))))"
    unfolding save_def t option.case Let_def position1_def [symmetric] s
    unfolding l' idx_def [symmetric] i_def [symmetric] b_def [symmetric] w2_def [symmetric]
      caret_def [symmetric]
    by (cases caret) simp_all
  also have "\<dots> = (case caret of
              Inl e \<Rightarrow> Some (Threw e (w\<lparr>stack := kept w, position := int (length (kept w)) - 1,
                                         initialItemInStack := b\<rparr>))
            | Inr c \<Rightarrow> Some (Returned (emit OnUpdate
                         (w\<lparr>stack := kept w @ [\<lparr>index = i, state = st, caretIndex = c\<rparr>],
                            position := int (length (kept w)), initialItemInStack := b\<rparr>))))"
    by (cases caret) (simp_all add: w2_def)
  finally show ?thesis by blast
qed

lemma save_returns:
  assumes "0 \<le> maxLength w" "0 \<le> position w"
  shows "\<exists>r. save api st w = Some r"
proof -
  from save_unfold [OF assms, of api st] obtain i b caret where
    "save api st w =
           (case caret of
              Inl e \<Rightarrow> Some (Threw e (w\<lparr>stack := kept w, position := int (length (kept w)) - 1,
                                         initialItemInStack := b\<rparr>))
            | Inr c \<Rightarrow> Some (Returned (emit OnUpdate
                         (w\<lparr>stack := kept w @ [\<lparr>index = i, state = st, caretIndex = c\<rparr>],
                            position := int (length (kept w)), initialItemInStack := b\<rparr>))))"
    by blast
  then show ?thesis by (cases caret) simp_all
qed

lemma save_Returned:
  assumes "save api st w = Some (Returned v)" "0 \<le> position w"
  shows "\<exists>i c. stack v = kept w @ [\<lparr>index = i, state = st, caretIndex = c\<rparr>]"
    and "position v = int (length (kept w))"
    and "maxLength v = maxLength w"
    and "readOnly v = readOnly w"
    and "shouldSaveHistory v = shouldSaveHistory w"
    and "editor v = editor w"
    and "trace v = trace w @ [(OnUpdate, shouldSaveHistory w)]"
proof -
  have m: "0 \<le> maxLength w" using assms by (rule save_limit)
  from save_unfold [OF m assms(2), of api st] obtain i b caret where
    "save api st w =
           (case caret of
              Inl e \<Rightarrow> Some (Threw e (w\<lparr>stack := kept w, position := int (length (kept w)) - 1,
                                         initialItemInStack := b\<rparr>))
            | Inr c \<Rightarrow> Some (Returned (emit OnUpdate
                         (w\<lparr>stack := kept w @ [\<lparr>index = i, state = st, caretIndex = c\<rparr>],
                            position := int (length (kept w)), initialItemInStack := b\<rparr>))))"
    by blast
  with assms(1) obtain c where
    v: "v = emit OnUpdate
                         (w\<lparr>stack := kept w @ [\<lparr>index = i, state = st, caretIndex = c\<rparr>],
                            position := int (length (kept w)), initialItemInStack := b\<rparr>)"
    by (cases caret) auto
  show "\<exists>i c. stack v = kept w @ [\<lparr>index = i, state = st, caretIndex = c\<rparr>]"
    unfolding v by simp
  show "position v = int (length (kept w))" "maxLength v = maxLength w" "readOnly v = readOnly w"
    "shouldSaveHistory v = shouldSaveHistory w" "editor v = editor w"
    "trace v = trace w @ [(OnUpdate, shouldSaveHistory w)]"
    unfolding v by simp_all
qed

lemma save_Threw:
  assumes "save api st w = Some (Threw e v)" "0 \<le> position w"
  shows "stack v = kept w"
    and "position v = int (length (kept w)) - 1"
    and "maxLength v = maxLength w"
    and "readOnly v = readOnly w"
    and "shouldSaveHistory v = shouldSaveHistory w"
    and "editor v = editor w"
    and "trace v = trace w"
proof -
  have m: "0 \<le> maxLength w" using assms by (rule save_limit)
  from save_unfold [OF m assms(2), of api st] obtain i b caret where
    "save api st w =
           (case caret of
              Inl e \<Rightarrow> Some (Threw e (w\<lparr>stack := kept w, position := int (length (kept w)) - 1,
                                         initialItemInStack := b\<rparr>))
            | Inr c \<Rightarrow> Some (Returned (emit OnUpdate
                         (w\<lparr>stack := kept w @ [\<lparr>index = i, state = st, caretIndex = c\<rparr>],
                            position := int (length (kept w)), initialItemInStack := b\<rparr>))))"
    by blast
  with assms(1) have
    v: "v = w\<lparr>stack := kept w, position := int (length (kept w)) - 1, initialItemInStack := b\<rparr>"
    by (cases caret) simp_all
  show "stack v = kept w" "position v = int (length (kept w)) - 1" "maxLength v = maxLength w"
    "readOnly v = readOnly w" "shouldSaveHistory v = shouldSaveHistory w" "editor v = editor w"
    "trace v = trace w"
    unfolding v by simp_all
qed

subsection \<open>The entries that a save keeps\<close>

lemma length_lastn [simp]: "length (lastn n xs) = min n (length xs)"
  by (simp add: lastn_def)

lemma kept_length_le:
  assumes "0 \<le> position w" "0 \<le> maxLength w"
  shows "int (length (kept w)) \<le> maxLength w"
  using assms by (auto simp: kept_def Let_def min_def)

lemma kept_nonempty:
  assumes "stack_ok w" "0 < maxLength w"
  shows "kept w \<noteq> []"
  using assms by (auto simp: kept_def Let_def stack_ok_def lastn_def)

lemma kept_below_limit:
  assumes "0 \<le> position w" "position w < maxLength w"
  shows "kept w = take (nat (position w + 1)) (stack w)"
proof -
  from assms have "kept w = take (nat (min (position w) (int (length (stack w)) - 1) + 1)) (stack w)"
    by (simp add: kept_def Let_def)
  also have "\<dots> = take (nat (position w + 1)) (stack w)"
    using assms(1) by (cases "position w \<le> int (length (stack w)) - 1") (simp_all add: min_def)
  finally show ?thesis .
qed

lemma kept_at_tail:
  assumes "stack_ok w" "within_limit w" "position w = int (length (stack w)) - 1"
  shows "kept w = lastn (nat (maxLength w)) (stack w)"
proof (cases "position w \<ge> maxLength w")
  case True
  with assms show ?thesis
    by (simp add: kept_def Let_def stack_ok_def within_limit_def min_def)
next
  case False
  with assms show ?thesis
    by (simp add: kept_def Let_def stack_ok_def within_limit_def lastn_def)
qed

section \<open>The invariant of the stack and the retention bound\<close>

lemma stack_ok_clear: "stack_ok (clear w)"
  by (simp add: stack_ok_def clear_def split: option.split)

lemma stack_ok_constructor: "stack_ok (constructor ed db ro m)"
  by (simp add: constructor_def stack_ok_clear)

lemma stack_ok_undo:
  assumes "stack_ok w"
  shows "stack_ok (world_of (undo api w))"
proof (cases "canUndo w")
  case True
  from undo_facts(1,4) [OF True assms, of api] True assms show ?thesis
    by (simp add: stack_ok_def canUndo_def undo_step_def flip: length_greater_0_conv)
next
  case False
  with assms show ?thesis by (simp add: undo_noop)
qed

lemma stack_ok_redo:
  assumes "stack_ok w"
  shows "stack_ok (world_of (redo api w))"
proof (cases "canRedo w")
  case True
  from redo_facts(1,3) [OF True assms, of api] True assms show ?thesis
    by (simp add: stack_ok_def canRedo_def count_def redo_step_def)
next
  case False
  with assms show ?thesis by (simp add: redo_noop)
qed

lemma stack_ok_save_Returned:
  assumes "stack_ok w" "save api st w = Some (Returned v)"
  shows "stack_ok v"
proof -
  from assms(1) have p: "0 \<le> position w" by (simp add: stack_ok_def)
  from save_Returned(1,2) [OF assms(2) p] show ?thesis
    by (auto simp: stack_ok_def)
qed

lemma stack_ok_save_Threw:
  assumes "stack_ok w" "maxLength w \<noteq> 0" "save api st w = Some (Threw e v)"
  shows "stack_ok v"
proof -
  from assms(1) have p: "0 \<le> position w" by (simp add: stack_ok_def)
  from save_limit [OF assms(3) p] assms(2) have m: "0 < maxLength w" by simp
  from save_Threw(1,2) [OF assms(3) p] kept_nonempty [OF assms(1) m] show ?thesis
    by (simp add: stack_ok_def)
qed

lemma stack_ok_save:
  assumes "stack_ok w" "0 < maxLength w" "save api st w = Some r"
  shows "stack_ok (world_of r)"
proof (cases r)
  case (Returned v)
  with assms(3) have "save api st w = Some (Returned v)" by simp
  with assms(1) have "stack_ok v" by (rule stack_ok_save_Returned)
  with Returned show ?thesis by simp
next
  case (Threw e v)
  with assms(3) have "save api st w = Some (Threw e v)" by simp
  with assms(1,2) have "stack_ok v" by (intro stack_ok_save_Threw [of w api st e v]) simp_all
  with Threw show ?thesis by simp
qed

lemma within_limit_save:
  assumes "0 \<le> position w" "save api st w = Some r"
  shows "within_limit (world_of r)"
proof -
  from assms have m: "0 \<le> maxLength w" by (simp add: save_limit)
  show ?thesis
  proof (cases r)
    case (Returned v)
    with save_Returned(1,3) [of api st w v] assms kept_length_le [OF assms(1) m] show ?thesis
      by (auto simp: within_limit_def)
  next
    case (Threw e v)
    with save_Threw(1,3) [of api st w e v] assms kept_length_le [OF assms(1) m] show ?thesis
      by (auto simp: within_limit_def)
  qed
qed

lemma maxLength_save:
  assumes "0 \<le> position w" "save api st w = Some r"
  shows "maxLength (world_of r) = maxLength w"
proof (cases r)
  case (Returned v)
  with assms save_Returned(3) [of api st w v] show ?thesis by simp
next
  case (Threw e v)
  with assms save_Threw(3) [of api st w e v] show ?thesis by simp
qed

subsection \<open>The sample plugins\<close>

lemmas stringify_defs = stringify_def stringify_block_def stringify_opt_def block_prop_def
  List.map_filter_simps

lemmas sample_defs = small_def fresh_def constructor_def clear_def emit_def live_def
  list_api_def js_nth_def slice0_def block_a_def block_b_def block_c_def getCaretIndex_def
  at_capacity_def at_capacity_again_def

lemma small_first_save: "save list_api [block_a] small = Some (Returned at_capacity)"
  by (simp add: save_def sample_defs)

lemma at_capacity_save: "save list_api [block_a] at_capacity = Some (Returned at_capacity_again)"
  by (simp add: save_def sample_defs truncate_closed lastn_def)

lemma small_ok: "stack_ok small" "0 < maxLength small"
  by (simp_all add: stack_ok_def sample_defs)

lemma at_capacity_ok: "stack_ok at_capacity" "within_limit at_capacity" "canUndo at_capacity"
  by (simp_all add: stack_ok_def within_limit_def canUndo_def at_capacity_def)

section \<open>The replay of an undo and of a redo\<close>

lemma undo_unfold:
  assumes "canUndo w" "stack_ok w"
  defines "nxt \<equiv> stack w ! nat (position w)"
    and "cur \<equiv> stack w ! nat (position w - 1)"
  defines "i \<equiv> (if js_nth (state cur) (index cur) = None then index cur - 1 else index cur)"
  defines "w3 \<equiv> (if js_nth (state cur) (index cur) = None
                   then setEntryIndex i (emit OnUpdate (w\<lparr>position := position w - 1, shouldSaveHistory := False\<rparr>))
                   else emit OnUpdate (w\<lparr>position := position w - 1, shouldSaveHistory := False\<rparr>))"
  shows "undo api w = and_then
          (undoBranch api (index nxt) (state nxt) i (state cur) (caretIndex cur)
             (blocks_getBlocksCount api (editor w)) w3)
          (syncFocused api i (state cur) (caretIndex cur))"
    and "trace w3 = trace w @ [(OnUpdate, False)]"
    and "\<not> shouldSaveHistory w3"
proof -
  from assms(1,2) have p: "0 < position w" "position w < int (length (stack w))"
    by (simp_all add: canUndo_def stack_ok_def)
  show "undo api w = and_then
          (undoBranch api (index nxt) (state nxt) i (state cur) (caretIndex cur)
             (blocks_getBlocksCount api (editor w)) w3)
          (syncFocused api i (state cur) (caretIndex cur))"
    using assms(1) p
    by (simp add: undo_def Let_def nxt_def cur_def i_def w3_def)
  show "trace w3 = trace w @ [(OnUpdate, False)]" "\<not> shouldSaveHistory w3"
    by (simp_all add: w3_def)
qed

lemma redo_unfold:
  assumes "canRedo w" "stack_ok w"
  defines "cur \<equiv> stack w ! nat (position w + 1)"
    and "prev \<equiv> stack w ! nat (position w)"
  shows "redo api w = and_then
           (redoBranch api (state prev) (index cur) (state cur)
              (w\<lparr>position := position w + 1, shouldSaveHistory := False\<rparr>))
           (\<lambda>v. syncFocused api (index cur) (state cur) (caretIndex cur) (emit OnUpdate v))"
proof -
  from assms(1,2) have p: "0 \<le> position w" "position w + 1 < int (length (stack w))"
    by (simp_all add: canRedo_def stack_ok_def count_def)
  then show ?thesis
    using assms(1) by (simp add: redo_def Let_def cur_def prev_def)
qed

text \<open>The calls of the final synchronisation are not structural.\<close>

lemma new_calls_same [simp]: "new_calls w w = []"
  by (simp add: new_calls_def new_events_def)

lemma new_calls_emit [simp]: "new_calls w (emit c w) = [c]"
  by (simp add: new_calls_def new_events_def)

lemma new_calls_trans:
  assumes "only_calls w v" "only_calls v u"
  shows "new_calls w u = new_calls w v @ new_calls v u"
  using assms new_events_append(2) [of w v u]
  by (simp add: new_calls_def only_calls_def)

lemma new_calls_setCaretIndex:
  "filter structural (new_calls w (world_of (setCaretIndex api i c w))) = []"
  by (simp add: setCaretIndex_def call_setToBlock_def new_calls_def new_events_def)

lemma new_calls_syncFocused:
  "filter structural (new_calls w (world_of (syncFocused api i st c w))) = []"
proof (cases "blocks_getBlockByIndex api (editor w) i")
  case None
  then show ?thesis by (simp add: syncFocused_def)
next
  case (Some b)
  show ?thesis
  proof (cases "js_nth st i")
    case None
    with Some show ?thesis by (simp add: syncFocused_def)
  next
    case (Some s)
    define v where "v = call_update api (Some b) (block_data s) w"
    have 1: "only_calls w v" by (simp add: v_def only_calls_call)
    have 2: "only_calls v (world_of (setCaretIndex api i c v))" by (rule only_calls_setCaretIndex)
    have "new_calls w v = [Update (Some b) (block_data s)]"
      by (simp add: v_def call_update_def new_calls_def new_events_def)
    with new_calls_trans [OF 1 2] new_calls_setCaretIndex [of v api i c]
    have "filter structural (new_calls w (world_of (setCaretIndex api i c v))) = []"
      by simp
    with Some \<open>blocks_getBlockByIndex api (editor w) i = Some b\<close> show ?thesis
      by (simp add: syncFocused_def v_def)
  qed
qed

text \<open>The replay of a deletion.\<close>

lemma insertDeletedBlock_middle:
  assumes "block_id b \<noteq> block_id c"
  shows "insertDeletedBlock api [a, b, c] [a, c] i w
         = call_setToBlock api i (call_insert api (block_type b) (block_data b) 1 w)"
proof -
  have "[0..<length [a, b, c]] = [0, 1, 2]" by (simp add: upt_rec)
  moreover have "\<not> idDiffers [a, b, c] [a, c] 0" "idDiffers [a, b, c] [a, c] 1"
    using assms by (simp_all add: idDiffers_def js_nth_def)
  ultimately show ?thesis
    by (simp add: insertDeletedBlock_def)
qed

lemma removed_middle:
  assumes "block_id b \<noteq> block_id c"
  shows "find (wasRemovedAt [a, b, c] [a, c]) [0..<length [a, b, c]] = Some 1"
proof -
  have "[0..<length [a, b, c]] = [0, 1, 2]" by (simp add: upt_rec)
  moreover have "\<not> wasRemovedAt [a, b, c] [a, c] 0" "wasRemovedAt [a, b, c] [a, c] 1"
    using assms by (auto simp: wasRemovedAt_def js_nth_def)
  ultimately show ?thesis by simp
qed

lemma undo_deletion:
  assumes "canUndo w" "stack_ok w"
    and "state (stack w ! nat (position w)) = [a, c]"
    and "state (stack w ! nat (position w - 1)) = [a, b, c]"
    and "block_id b \<noteq> block_id c"
  shows "filter structural (new_calls w (undo_step api w)) = [Insert (block_type b) (block_data b) 1]"
proof -
  define cur where "cur = stack w ! nat (position w - 1)"
  define i where "i = (if js_nth (state cur) (index cur) = None then index cur - 1 else index cur)"
  define w3 where "w3 = (if js_nth (state cur) (index cur) = None
                   then setEntryIndex i (emit OnUpdate (w\<lparr>position := position w - 1, shouldSaveHistory := False\<rparr>))
                   else emit OnUpdate (w\<lparr>position := position w - 1, shouldSaveHistory := False\<rparr>))"
  define v where "v = call_setToBlock api i (call_insert api (block_type b) (block_data b) 1 w3)"
  define u where "u = world_of (syncFocused api i [a, b, c] (caretIndex cur) v)"
  note un = undo_unfold(1) [OF assms(1,2), of api, folded cur_def, folded i_def, folded w3_def]
    undo_unfold(2,3) [OF assms(1,2), folded cur_def, folded i_def, folded w3_def]
  have br: "undoBranch api (index (stack w ! nat (position w))) [a, c] i [a, b, c] (caretIndex cur)
              (blocks_getBlocksCount api (editor w)) w3 = Returned v"
    by (simp add: undoBranch_def blockWasDeleted_def insertDeletedBlock_middle [OF assms(5)] v_def)
  have "undo api w = syncFocused api i [a, b, c] (caretIndex cur) v"
    unfolding un(1) assms(3) assms(4) [folded cur_def] br by simp
  then have u: "undo_step api w = u" by (simp add: undo_step_def u_def)
  have tv: "trace v = trace w @ [(OnUpdate, False), (Insert (block_type b) (block_data b) 1, False),
                                  (SetToBlockEnd i, False)]"
    using un(2,3) by (simp add: v_def call_setToBlock_def call_insert_def)
  have vu: "only_calls v u" unfolding u_def by (rule only_calls_syncFocused)
  have "trace u = trace v @ new_events v u" using vu by (rule only_calls_events)
  then have "new_calls w u = [OnUpdate, Insert (block_type b) (block_data b) 1, SetToBlockEnd i]
                             @ new_calls v u"
    unfolding tv by (simp add: new_calls_def new_events_def [of w u])
  moreover have "filter structural (new_calls v u) = []"
    unfolding u_def by (rule new_calls_syncFocused)
  ultimately show ?thesis unfolding u by simp
qed

lemma redo_deletion:
  assumes "canRedo w" "stack_ok w"
    and "state (stack w ! nat (position w)) = [a, b, c]"
    and "state (stack w ! nat (position w + 1)) = [a, c]"
    and "block_id b \<noteq> block_id c"
  shows "filter structural (new_calls w (redo_step api w)) = [Delete 1]"
proof -
  define cur where "cur = stack w ! nat (position w + 1)"
  define w1 where "w1 = w\<lparr>position := position w + 1, shouldSaveHistory := False\<rparr>"
  define v where "v = emit OnUpdate (call_setToBlock api 1 (call_delete api 1 w1))"
  define u where "u = world_of (syncFocused api (index cur) [a, c] (caretIndex cur) v)"
  note re = redo_unfold [OF assms(1,2), of api, folded cur_def, folded w1_def]
  have br: "redoBranch api [a, b, c] (index cur) [a, c] w1
            = Returned (call_setToBlock api 1 (call_delete api 1 w1))"
    using removed_middle [OF assms(5), of a]
    by (simp add: redoBranch_def blockWasDeleted_def)
  have "redo api w = syncFocused api (index cur) [a, c] (caretIndex cur) v"
    unfolding re assms(3) assms(4) [folded cur_def] br by (simp add: v_def)
  then have u: "redo_step api w = u" by (simp add: redo_step_def u_def)
  have tv: "trace v = trace w @ [(Delete 1, False), (SetToBlockEnd 1, False), (OnUpdate, False)]"
    by (simp add: v_def w1_def call_setToBlock_def call_delete_def)
  have vu: "only_calls v u" unfolding u_def by (rule only_calls_syncFocused)
  have "trace u = trace v @ new_events v u" using vu by (rule only_calls_events)
  then have "new_calls w u = [Delete 1, SetToBlockEnd 1, OnUpdate] @ new_calls v u"
    unfolding tv by (simp add: new_calls_def new_events_def [of w u])
  moreover have "filter structural (new_calls v u) = []"
    unfolding u_def by (rule new_calls_syncFocused)
  ultimately show ?thesis unfolding u by simp
qed

subsection \<open>Two commits in a row\<close>

lemma kept_tail_last:
  assumes "stack_ok w" "position w = int (length (stack w)) - 1" "0 < maxLength w"
  shows "kept w \<noteq> []" "last (kept w) = last (stack w)"
proof -
  from assms(1) have ne: "stack w \<noteq> []" by (simp add: stack_ok_def)
  show "kept w \<noteq> []" using assms(1,3) by (rule kept_nonempty)
  show "last (kept w) = last (stack w)"
  proof (cases "position w \<ge> maxLength w")
    case True
    with assms ne have "kept w = lastn (nat (maxLength w)) (stack w)"
      by (simp add: kept_def Let_def min_def)
    with assms(3) ne True assms(2) show ?thesis
      by (simp add: lastn_def)
  next
    case False
    with assms ne have "kept w = stack w"
      by (simp add: kept_def Let_def)
    then show ?thesis by simp
  qed
qed

lemma two_commits:
  assumes "stack_ok w0" "0 < maxLength w0"
    and "save api s1 w0 = Some (Returned w1)"
    and "save api s2 (w1\<lparr>editor := e2\<rparr>) = Some (Returned w2)"
  shows "stack_ok w2" "0 < position w2" "readOnly w2 = readOnly w0"
    and "state (stack w2 ! nat (position w2)) = s2"
    and "state (stack w2 ! nat (position w2 - 1)) = s1"
proof -
  from assms(1) have p0: "0 \<le> position w0" by (simp add: stack_ok_def)
  note r1 = save_Returned [OF assms(3) p0]
  from r1(1) obtain i1 c1 where s1: "stack w1 = kept w0 @ [\<lparr>index = i1, state = s1, caretIndex = c1\<rparr>]"
    by auto
  define w1' where "w1' = w1\<lparr>editor := e2\<rparr>"
  have ok1: "stack_ok w1'" and tail1: "position w1' = int (length (stack w1')) - 1"
    and m1: "0 < maxLength w1'" and p1: "0 \<le> position w1'"
    and l1: "last (stack w1') = \<lparr>index = i1, state = s1, caretIndex = c1\<rparr>"
    using s1 r1(2,3) assms(2) by (simp_all add: w1'_def stack_ok_def)
  note r2 = save_Returned [OF assms(4) [folded w1'_def] p1]
  from r2(1) obtain i2 c2 where s2: "stack w2 = kept w1' @ [\<lparr>index = i2, state = s2, caretIndex = c2\<rparr>]"
    by auto
  note k = kept_tail_last [OF ok1 tail1 m1]
  show "stack_ok w2" using ok1 assms(4) [folded w1'_def] by (rule stack_ok_save_Returned)
  show "0 < position w2" using r2(2) k(1) by simp
  show "readOnly w2 = readOnly w0" using r1(4) r2(4) by (simp add: w1'_def)
  show "state (stack w2 ! nat (position w2)) = s2"
    using s2 r2(2) by simp
  have n: "nat (position w2 - 1) = length (kept w1') - 1" using r2(2) by simp
  have "length (kept w1') - 1 < length (kept w1')" using k(1) by simp
  then have "stack w2 ! nat (position w2 - 1) = last (kept w1')"
    unfolding n s2 using k(1) by (simp add: nth_append last_conv_nth)
  then show "state (stack w2 ! nat (position w2 - 1)) = s1"
    using k(2) l1 by simp
qed

lemma state_nth_eq:
  assumes "map state xs = map state ys" "k < length ys"
  shows "state (xs ! k) = state (ys ! k)"
proof -
  from assms(1) have "length xs = length ys" by (rule map_eq_imp_length_eq)
  with assms(2) have "state (xs ! k) = map state xs ! k" by simp
  also have "\<dots> = state (ys ! k)" using assms by simp
  finally show ?thesis .
qed

section \<open>Sequences of commits, undos and redos\<close>

lemma lastn_map: "map f (lastn n xs) = lastn n (map f xs)"
  by (simp add: lastn_def drop_map)

lemma lastn_all: "length xs \<le> n \<Longrightarrow> lastn n xs = xs"
  by (simp add: lastn_def)

lemma lastn_snoc: "lastn (Suc n) (xs @ [x]) = lastn n xs @ [x]"
  by (simp add: lastn_def Suc_diff_le)

lemma lastn_lastn_append: "lastn n (lastn n xs @ ys) = lastn n (xs @ ys)"
  by (cases "n \<le> length xs") (simp_all add: lastn_def add.commute)

lemma commit_all_Cons:
  assumes "commit_all api (c # cs) w = Some v"
  obtains x where "save api (fst c) (w\<lparr>editor := snd c\<rparr>) = Some (Returned x)"
    and "commit_all api cs x = Some v"
proof (cases "save api (fst c) (w\<lparr>editor := snd c\<rparr>)")
  case None
  with assms show ?thesis by simp
next
  case (Some r)
  show ?thesis
  proof (cases r)
    case (Returned x)
    with Some assms that show ?thesis by simp
  next
    case (Threw e x)
    with Some assms show ?thesis by simp
  qed
qed

lemma commit_all_stack:
  assumes "commit_all api cs w = Some v" "stack_ok w" "within_limit w"
    and "position w = int (length (stack w)) - 1" "0 < maxLength w"
  shows "map state (stack v) = lastn (nat (maxLength w) + 1) (map state (stack w) @ map fst cs)
         \<and> position v = int (length (stack v)) - 1 \<and> stack_ok v
         \<and> maxLength v = maxLength w \<and> readOnly v = readOnly w"
  using assms
proof (induction cs arbitrary: w)
  case Nil
  then show ?case by (simp add: lastn_all within_limit_def)
next
  case (Cons c cs)
  define w' where "w' = w\<lparr>editor := snd c\<rparr>"
  from Cons.prems(1) obtain x where x: "save api (fst c) w' = Some (Returned x)"
    and rest: "commit_all api cs x = Some v"
    unfolding w'_def by (rule commit_all_Cons)
  have ok: "stack_ok w'" and wl: "within_limit w'" and tail: "position w' = int (length (stack w')) - 1"
    and m: "0 < maxLength w'" and p: "0 \<le> position w'"
    using Cons.prems(2-5) by (simp_all add: w'_def stack_ok_def within_limit_def)
  note r = save_Returned [OF x p]
  have k: "kept w' = lastn (nat (maxLength w)) (stack w)"
    using kept_at_tail [OF ok wl tail] by (simp add: w'_def)
  from r(1) obtain i ca where sx: "stack x = kept w' @ [\<lparr>index = i, state = fst c, caretIndex = ca\<rparr>]"
    by auto
  have mx: "map state (stack x) = lastn (Suc (nat (maxLength w))) (map state (stack w) @ [fst c])"
    unfolding sx k by (simp add: lastn_map lastn_snoc)
  have okx: "stack_ok x" using ok x by (rule stack_ok_save_Returned)
  have wlx: "within_limit x" using within_limit_save [OF p x] by simp
  have tx: "position x = int (length (stack x)) - 1" using r(2) sx by simp
  have mlx: "maxLength x = maxLength w" "readOnly x = readOnly w" using r(3,4) by (simp_all add: w'_def)
  from Cons.IH [OF rest okx wlx tx] mlx Cons.prems(5)
  have ih: "map state (stack v) = lastn (nat (maxLength w) + 1) (map state (stack x) @ map fst cs)"
    "position v = int (length (stack v)) - 1" "stack_ok v" "maxLength v = maxLength w"
    "readOnly v = readOnly w"
    by simp_all
  have "map state (stack v) = lastn (nat (maxLength w) + 1) (map state (stack w) @ map fst (c # cs))"
    unfolding ih(1) mx by (simp add: lastn_lastn_append)
  with ih(2-5) show ?case by simp
qed

lemma undo_iter:
  assumes "stack_ok w" "\<not> readOnly w"
  shows "position ((undo_step api ^^ j) w) = max 0 (position w - int j)
         \<and> map state (stack ((undo_step api ^^ j) w)) = map state (stack w)
         \<and> stack_ok ((undo_step api ^^ j) w) \<and> \<not> readOnly ((undo_step api ^^ j) w)"
proof (induction j)
  case 0
  with assms show ?case by (simp add: stack_ok_def)
next
  case (Suc j)
  define v where "v = (undo_step api ^^ j) w"
  from Suc have v: "position v = max 0 (position w - int j)"
    "map state (stack v) = map state (stack w)" "stack_ok v" "\<not> readOnly v"
    by (simp_all add: v_def)
  have s: "(undo_step api ^^ Suc j) w = undo_step api v" by (simp add: v_def)
  show ?case
  proof (cases "canUndo v")
    case True
    from undo_facts(1,3,5) [OF True v(3), of api] stack_ok_undo [OF v(3), of api] v True
    show ?thesis unfolding s by (simp add: undo_step_def canUndo_def)
  next
    case False
    then have "undo_step api v = v" by (simp add: undo_step_def undo_noop)
    with False v show ?thesis unfolding s by (simp add: canUndo_def)
  qed
qed

lemma redo_iter:
  assumes "stack_ok w" "\<not> readOnly w"
  shows "position ((redo_step api ^^ i) w) = min (count w) (position w + int i)
         \<and> stack ((redo_step api ^^ i) w) = stack w
         \<and> stack_ok ((redo_step api ^^ i) w) \<and> \<not> readOnly ((redo_step api ^^ i) w)"
proof (induction i)
  case 0
  with assms show ?case by (simp add: stack_ok_def count_def)
next
  case (Suc i)
  define v where "v = (redo_step api ^^ i) w"
  from Suc have v: "position v = min (count w) (position w + int i)"
    "stack v = stack w" "stack_ok v" "\<not> readOnly v"
    by (simp_all add: v_def)
  have s: "(redo_step api ^^ Suc i) w = redo_step api v" by (simp add: v_def)
  have c: "count v = count w" using v(2) by (simp add: count_def)
  show ?case
  proof (cases "canRedo v")
    case True
    from redo_facts(1,3,4) [OF True v(3), of api] stack_ok_redo [OF v(3), of api] v True c
    show ?thesis unfolding s by (simp add: redo_step_def canRedo_def)
  next
    case False
    then have "redo_step api v = v" by (simp add: redo_step_def redo_noop)
    with False v c show ?thesis unfolding s by (simp add: canRedo_def)
  qed
qed

lemma constructor_fields:
  "stack (constructor ed db ro m)
     = [\<lparr>index = 0, state = [\<lparr>block_id = None, block_type = db, block_data = [],
       block_rest = [], block_order = [''type'', ''data'']\<rparr>], caretIndex = None\<rparr>]"
  "position (constructor ed db ro m) = 0"
  "readOnly (constructor ed db ro m) = ro"
  "maxLength (constructor ed db ro m) \<noteq> 0"
  by (simp_all add: constructor_def clear_def split: option.split)

lemma built:
  assumes "commit_all api cs (constructor ed db False m) = Some w"
  shows "map state (stack w) = lastn (nat (maxLength w) + 1)
                                ([\<lparr>block_id = None, block_type = db, block_data = [],
       block_rest = [], block_order = [''type'', ''data'']\<rparr>] # map fst cs)"
    and "position w = int (length (stack w)) - 1" and "stack_ok w" and "\<not> readOnly w"
proof -
  define w0 :: "'a plugin" where "w0 = constructor ed db False m"
  note f = constructor_fields [of ed db False m, folded w0_def]
  have ok0: "stack_ok w0" unfolding w0_def by (rule stack_ok_constructor)
  have *: "map state (stack w) = lastn (nat (maxLength w) + 1)
                                ([\<lparr>block_id = None, block_type = db, block_data = [],
       block_rest = [], block_order = [''type'', ''data'']\<rparr>] # map fst cs)
      \<and> position w = int (length (stack w)) - 1 \<and> stack_ok w \<and> \<not> readOnly w"
  proof (cases cs)
    case Nil
    with assms have "w = w0" by (simp add: w0_def)
    with f ok0 Nil show ?thesis by (simp add: lastn_def)
  next
    case (Cons c cs')
    from assms obtain x where x: "save api (fst c) (w0\<lparr>editor := snd c\<rparr>) = Some (Returned x)"
      and "commit_all api cs' x = Some w"
      unfolding w0_def Cons by (rule commit_all_Cons)
    from x have "0 \<le> maxLength (w0\<lparr>editor := snd c\<rparr>)"
      by (rule save_limit) (simp add: f)
    with f(4) have m: "0 < maxLength w0" by simp
    then have wl: "within_limit w0" by (simp add: within_limit_def f)
    have t: "position w0 = int (length (stack w0)) - 1" by (simp add: f)
    from commit_all_stack [OF assms [folded w0_def] ok0 wl t m] f
    show ?thesis by simp
  qed
  then show "map state (stack w) = lastn (nat (maxLength w) + 1)
                                ([\<lparr>block_id = None, block_type = db, block_data = [],
       block_rest = [], block_order = [''type'', ''data'']\<rparr>] # map fst cs)"
    and "position w = int (length (stack w)) - 1" and "stack_ok w" and "\<not> readOnly w"
    by simp_all
qed

section \<open>The read-only guard\<close>

text \<open>
  Claim C5. With the read-only flag set, \<^verbatim>\<open>canUndo()\<close> and \<^verbatim>\<open>canRedo()\<close> are false
  whatever the position is. Whenever \<^verbatim>\<open>canUndo()\<close> is false, \<^verbatim>\<open>undo()\<close> returns without
  an error and leaves the object as it was: the stack, the position and
  \<^verbatim>\<open>shouldSaveHistory\<close> are unchanged and no call reaches the editor (the editor and the
  trace of calls are part of the state that is returned unchanged). The same holds for
  \<^verbatim>\<open>canRedo()\<close> and \<^verbatim>\<open>redo()\<close>.
\<close>

theorem read_only_guard:
  "(readOnly w \<longrightarrow> \<not> canUndo w \<and> \<not> canRedo w)
   \<and> (\<not> canUndo w \<longrightarrow> undo api w = Returned w \<and> new_calls w (world_of (undo api w)) = [])
   \<and> (\<not> canRedo w \<longrightarrow> redo api w = Returned w \<and> new_calls w (world_of (redo api w)) = [])"
  by (simp add: canUndo_def canRedo_def undo_def redo_def new_calls_def new_events_def)

theorem read_only_guard_witness:
  "readOnly frozen \<and> \<not> canUndo frozen \<and> \<not> canRedo frozen
   \<and> undo list_api frozen = Returned frozen \<and> redo list_api frozen = Returned frozen
   \<and> new_calls frozen (world_of (undo list_api frozen)) = []
   \<and> new_calls frozen (world_of (redo list_api frozen)) = []"
proof -
  have ro: "readOnly frozen" by (simp add: frozen_def)
  from read_only_guard [of frozen list_api] ro show ?thesis by simp
qed

section \<open>The stack is never empty\<close>

text \<open>
  Claim C2. The history stack is never empty and the position is inside it,
  \<open>0 \<le> position < length stack\<close> (the predicate \<open>stack_ok\<close>): the constructor
  establishes this, and \<^verbatim>\<open>clear\<close>, \<^verbatim>\<open>undo\<close>, \<^verbatim>\<open>redo\<close> and \<^verbatim>\<open>save\<close> preserve it, whether
  they return or throw. The constructor never leaves \<^verbatim>\<open>maxLength\<close> at 0; \<^verbatim>\<open>save\<close> returns
  for every limit that is not negative.
\<close>

theorem stack_invariant:
  "stack_ok (constructor ed db ro m) \<and> maxLength (constructor ed db ro m) \<noteq> 0
   \<and> stack_ok (clear w)
   \<and> (stack_ok w \<longrightarrow> stack_ok (world_of (undo api w)) \<and> stack_ok (world_of (redo api w)))
   \<and> (stack_ok w \<and> maxLength w \<noteq> 0 \<and> save api st w = Some r \<longrightarrow> stack_ok (world_of r))
   \<and> (stack_ok w \<and> 0 \<le> maxLength w \<longrightarrow> save api st w \<noteq> None)"
proof -
  have "save api st w \<noteq> None" if "stack_ok w" "0 \<le> maxLength w"
    using save_returns [of w api st] that by (auto simp: stack_ok_def)
  moreover have "stack_ok (world_of r)" if "stack_ok w" "maxLength w \<noteq> 0" "save api st w = Some r"
  proof -
    from that have "0 \<le> maxLength w" by (intro save_limit [of api st w r]) (simp_all add: stack_ok_def)
    with that(2) have "0 < maxLength w" by simp
    with that(1) show ?thesis using that(3) by (rule stack_ok_save)
  qed
  moreover have "maxLength (constructor ed db ro m) \<noteq> 0"
    by (simp add: constructor_def clear_def split: option.split)
  ultimately show ?thesis
    by (simp add: stack_ok_constructor stack_ok_clear stack_ok_undo stack_ok_redo)
qed

theorem stack_invariant_witness:
  "stack_ok small \<and> stack_ok (world_of (undo list_api small)) \<and> stack_ok (world_of (redo list_api small))
   \<and> maxLength small \<noteq> 0 \<and> save list_api [block_a] small = Some (Returned at_capacity)
   \<and> stack_ok at_capacity \<and> 0 \<le> maxLength small \<and> save list_api [block_a] small \<noteq> None"
  using stack_invariant [of "live [] 0" "''paragraph''" False None small list_api "[block_a]"
      "Returned at_capacity"]
    small_ok small_first_save
  by simp

section \<open>The retention bound\<close>

text \<open>
  The stack bound as the specification states it fails: with \<^verbatim>\<open>maxLength\<close> 1 the first
  \<^verbatim>\<open>save\<close> leaves two entries on the stack, the initial one and the committed one.
\<close>

theorem stack_bound_counterexample:
  "save list_api [block_a] small = Some (Returned at_capacity)
   \<and> length (stack at_capacity) = 2 \<and> maxLength at_capacity = 1
   \<and> \<not> int (length (stack at_capacity)) \<le> maxLength at_capacity"
  using small_first_save by (simp add: at_capacity_def)

text \<open>
  Claim C1, amended. \<^verbatim>\<open>maxLength\<close> bounds the number of recorded changes, \<^verbatim>\<open>count()\<close>,
  which leaves the initial entry out: for every sequence of \<^verbatim>\<open>save\<close> calls on a plugin
  with a positive limit, whatever the editor shows at each call, every call returns or
  throws, and after each one the stack holds at most \<^verbatim>\<open>maxLength + 1\<close> entries.
\<close>

theorem count_bound:
  assumes "stack_ok w" "0 < maxLength w"
  shows "\<exists>vs. save_all api cs w = Some vs \<and> length vs = length cs
              \<and> list_all (\<lambda>v. int (length (stack v)) \<le> maxLength w + 1 \<and> count v \<le> maxLength w) vs"
  using assms
proof (induction cs arbitrary: w)
  case Nil
  then show ?case by simp
next
  case (Cons c cs)
  define w' where "w' = w\<lparr>editor := snd c\<rparr>"
  have ok: "stack_ok w'" and m: "0 < maxLength w'" and p: "0 \<le> position w'"
    using Cons.prems by (simp_all add: w'_def stack_ok_def)
  from save_returns [of w' api "fst c"] m p obtain r where r: "save api (fst c) w' = Some r"
    by auto
  have ok': "stack_ok (world_of r)" using ok m r by (rule stack_ok_save)
  have ml: "maxLength (world_of r) = maxLength w"
    using maxLength_save [OF p r] by (simp add: w'_def)
  have wl: "within_limit (world_of r)" using p r by (rule within_limit_save)
  from Cons.IH [OF ok'] ml Cons.prems(2) obtain vs where
    vs: "save_all api cs (world_of r) = Some vs" "length vs = length cs"
      "list_all (\<lambda>v. int (length (stack v)) \<le> maxLength w + 1 \<and> count v \<le> maxLength w) vs"
    by auto
  from r vs wl ml show ?case
    by (simp add: w'_def [symmetric] within_limit_def count_def)
qed

theorem count_bound_witness:
  "stack_ok small \<and> 0 < maxLength small
   \<and> (\<exists>vs. save_all list_api [([block_a], live [block_a] 0), ([block_a], live [block_a] 0)] small = Some vs
          \<and> length vs = 2
          \<and> list_all (\<lambda>v. int (length (stack v)) \<le> maxLength small + 1 \<and> count v \<le> maxLength small) vs)"
  using count_bound [OF small_ok, of list_api "[([block_a], live [block_a] 0), ([block_a], live [block_a] 0)]"]
    small_ok
  by (simp add: numeral_2_eq_2 del: save_all.simps)

section \<open>Redo invalidation\<close>

text \<open>
  Claim C3. After an \<^verbatim>\<open>undo\<close> that proceeds, whatever the user then does to the live
  document, a \<^verbatim>\<open>save\<close> returns or throws, and either way the stack keeps no entry beyond
  the position that the undo reached (it is the entries up to that position, followed by
  the new entry when \<^verbatim>\<open>save\<close> returns), so that \<^verbatim>\<open>canRedo()\<close> is false.
\<close>

theorem redo_invalidated:
  fixes w :: "'e plugin" and api :: "'e api" and ed :: "'e" and st :: "block list"
  assumes "stack_ok w" "within_limit w" "canUndo w"
  defines "u \<equiv> (undo_step api w)\<lparr>editor := ed\<rparr>"
  shows "position u = position w - 1
         \<and> (\<exists>r. save api st u = Some r \<and> \<not> canRedo (world_of r)
                \<and> (case r of
                      Returned v \<Rightarrow> \<exists>i c. stack v = take (nat (position u + 1)) (stack u)
                                              @ [\<lparr>index = i, state = st, caretIndex = c\<rparr>]
                    | Threw e v \<Rightarrow> stack v = take (nat (position u + 1)) (stack u)))"
proof -
  from assms(1,3) have p: "0 < position w" "position w < int (length (stack w))"
    by (simp_all add: canUndo_def stack_ok_def)
  have pu: "position u = position w - 1" and lu: "length (stack u) = length (stack w)"
    and mu: "maxLength u = maxLength w"
    using undo_facts(1,4,6) [OF assms(3,1), of api] by (simp_all add: u_def)
  from p assms(2) pu mu have b: "0 \<le> position u" "position u < maxLength u"
    by (simp_all add: within_limit_def)
  then obtain r where r: "save api st u = Some r"
    using save_returns [of u api st] by auto
  have k: "kept u = take (nat (position u + 1)) (stack u)" using b by (rule kept_below_limit)
  have lk: "int (length (kept u)) = position u + 1"
    using k b(1) p pu lu by simp
  have "\<not> canRedo (world_of r) \<and> (case r of
                      Returned v \<Rightarrow> \<exists>i c. stack v = take (nat (position u + 1)) (stack u)
                                              @ [\<lparr>index = i, state = st, caretIndex = c\<rparr>]
                    | Threw e v \<Rightarrow> stack v = take (nat (position u + 1)) (stack u))"
  proof (cases r)
    case (Returned v)
    with r have s: "save api st u = Some (Returned v)" by simp
    from save_Returned(1,2) [OF s b(1)] Returned show ?thesis
      by (auto simp: canRedo_def count_def k)
  next
    case (Threw e v)
    with r have s: "save api st u = Some (Threw e v)" by simp
    from save_Threw(1,2) [OF s b(1)] Threw lk show ?thesis
      by (simp add: canRedo_def count_def k [symmetric])
  qed
  with pu r show ?thesis by blast
qed

theorem redo_invalidated_witness:
  "stack_ok at_capacity \<and> within_limit at_capacity \<and> canUndo at_capacity
   \<and> position ((undo_step list_api at_capacity)\<lparr>editor := live [block_b] 0\<rparr>) = position at_capacity - 1
   \<and> (\<exists>r. save list_api [block_b] ((undo_step list_api at_capacity)\<lparr>editor := live [block_b] 0\<rparr>) = Some r
          \<and> \<not> canRedo (world_of r))"
proof -
  from redo_invalidated [OF at_capacity_ok, where api = list_api and ed = "live [block_b] 0"
      and st = "[block_b]"]
  obtain r where
    "position ((undo_step list_api at_capacity)\<lparr>editor := live [block_b] 0\<rparr>) = position at_capacity - 1"
    "save list_api [block_b] ((undo_step list_api at_capacity)\<lparr>editor := live [block_b] 0\<rparr>) = Some r"
    "\<not> canRedo (world_of r)"
    by blast
  with at_capacity_ok show ?thesis by blast
qed

section \<open>No equality guard inside save\<close>

text \<open>
  A direct \<^verbatim>\<open>save\<close> of the current snapshot does not always increment the position and
  \<^verbatim>\<open>count()\<close>: when the position has reached \<^verbatim>\<open>maxLength\<close> the oldest entry is shifted
  out first, and both stay as they were.
\<close>

theorem save_without_guard_counterexample:
  "js_nth (stack at_capacity) (position at_capacity) = Some \<lparr>index = 0, state = [block_a], caretIndex = Some 0\<rparr>
   \<and> save list_api [block_a] at_capacity = Some (Returned at_capacity_again)
   \<and> position at_capacity_again = position at_capacity
   \<and> count at_capacity_again = count at_capacity
   \<and> length (stack at_capacity_again) = length (stack at_capacity)"
  using at_capacity_save
  by (simp add: at_capacity_def at_capacity_again_def count_def js_nth_def)

text \<open>
  Claim C10, amended. A \<^verbatim>\<open>save\<close> that returns, called with the very snapshot stored at
  the current position, still pushes a new entry with that snapshot behind the entries
  it keeps, and the position becomes the index of the new entry. When the position was
  at the end of the stack and below \<^verbatim>\<open>maxLength\<close>, nothing is dropped, and the position
  and \<^verbatim>\<open>count()\<close> go up by one.
\<close>

theorem save_without_guard:
  assumes "stack_ok w" "js_nth (stack w) (position w) = Some e" "state e = st"
    and "save api st w = Some (Returned v)"
  shows "(\<exists>i c. stack v = kept w @ [\<lparr>index = i, state = st, caretIndex = c\<rparr>])
         \<and> position v = int (length (stack v)) - 1
         \<and> (position w = count w \<and> position w < maxLength w
              \<longrightarrow> butlast (stack v) = stack w \<and> position v = position w + 1 \<and> count v = count w + 1)"
proof -
  from assms(1) have p: "0 \<le> position w" by (simp add: stack_ok_def)
  note r = save_Returned(1,2) [OF assms(4) p]
  have "butlast (stack v) = stack w \<and> position v = position w + 1 \<and> count v = count w + 1"
    if "position w = count w" "position w < maxLength w"
  proof -
    from kept_below_limit [OF p that(2)] that(1) have "kept w = stack w"
      by (simp add: count_def)
    with r that(1) show ?thesis by (auto simp: count_def)
  qed
  with r show ?thesis by auto
qed

theorem save_without_guard_witness:
  "stack_ok small
   \<and> js_nth (stack small) (position small)
       = Some \<lparr>index = 0, state = [\<lparr>block_id = None, block_type = ''paragraph'', block_data = [],
       block_rest = [], block_order = [''type'', ''data'']\<rparr>],
               caretIndex = None\<rparr>
   \<and> position small = count small \<and> position small < maxLength small
   \<and> (\<exists>v. save list_api [\<lparr>block_id = None, block_type = ''paragraph'', block_data = [],
       block_rest = [], block_order = [''type'', ''data'']\<rparr>] small
               = Some (Returned v)
          \<and> butlast (stack v) = stack small \<and> position v = position small + 1
          \<and> count v = count small + 1)"
proof -
  define s0 where "s0 = [\<lparr>block_id = None, block_type = ''paragraph'', block_data = [],
       block_rest = [], block_order = [''type'', ''data'']\<rparr>]"
  define e0 where "e0 = \<lparr>index = 0, state = s0, caretIndex = None\<rparr>"
  have e: "js_nth (stack small) (position small) = Some e0" "state e0 = s0"
    by (simp_all add: sample_defs e0_def s0_def)
  have c: "position small = count small" "position small < maxLength small"
    by (simp_all add: sample_defs count_def)
  obtain v where v: "save list_api s0 small = Some (Returned v)"
    by (simp add: save_def sample_defs s0_def)
  from save_without_guard [OF small_ok(1) e v] c v e small_ok(1) show ?thesis
    unfolding e0_def s0_def by simp
qed

section \<open>The guard of the change detector\<close>

lemma stringify_length: "stringify st = stringify st' \<Longrightarrow> length st = length st'"
  unfolding stringify_def by (auto dest: map_eq_imp_length_eq)

text \<open>
  The last test of \<^verbatim>\<open>editorDidUpdate\<close> is not deep equality. The block of the initial
  data and the block that the editor saves are deep-equal, with their keys in different
  orders; their JSON texts differ, so \<^verbatim>\<open>editorDidUpdate\<close> is true and \<^verbatim>\<open>registerChange\<close>
  commits the observation: \<^verbatim>\<open>count()\<close> goes from 0 to 1.
\<close>

theorem editorDidUpdate_guard_counterexample:
  "state (stack initialised ! nat (position initialised)) = [block_a_reordered]
   \<and> editor_save list_api (editor initialised) = [block_a]
   \<and> deep_equal_blocks [block_a] [block_a_reordered]
   \<and> editorDidUpdate [block_a] initialised = Inr True
   \<and> count initialised = 0
   \<and> registerChange list_api initialised \<noteq> None
   \<and> count (world_of (the (registerChange list_api initialised))) = 1"
proof -
  have d: "deep_equal_blocks [block_a] [block_a_reordered]"
    by (simp add: deep_equal_blocks_def block_a_reordered_def block_a_def stringify_defs)
  have u: "editorDidUpdate [block_a] initialised = Inr True"
    by (simp add: editorDidUpdate_def initialised_def initialize_def Let_def sample_defs
        block_a_reordered_def stringify_defs)
  have s: "state (stack initialised ! nat (position initialised)) = [block_a_reordered]"
    "editor_save list_api (editor initialised) = [block_a]" "count initialised = 0"
    by (simp_all add: initialised_def initialize_def Let_def sample_defs count_def)
  have t: "holder_toolbox list_api (editor initialised)" "shouldSaveHistory initialised"
    by (simp_all add: initialised_def initialize_def Let_def sample_defs)
  have e: "editorDidUpdate [block_a] (initialised\<lparr>readOnly := False, shouldSaveHistory := True\<rparr>)
           = Inr True"
    using u by (simp add: editorDidUpdate_def)
  have r: "registerChange list_api initialised
           = save list_api [block_a] (initialised\<lparr>readOnly := False, shouldSaveHistory := True\<rparr>)"
    using t e by (simp add: registerChange_def setReadOnly_def Let_def s(2))
  have "registerChange list_api initialised \<noteq> None
        \<and> count (world_of (the (registerChange list_api initialised))) = 1"
    unfolding r
    by (simp add: save_def initialised_def initialize_def Let_def sample_defs count_def)
  with d u s show ?thesis by simp
qed

text \<open>
  Claim C6, amended. On a plugin whose stack invariant holds, \<^verbatim>\<open>editorDidUpdate(newState)\<close>
  is false for an empty \<open>newState\<close>, true when its length differs from the length of the
  snapshot at the current position, and otherwise true exactly when the JSON text of
  \<open>newState\<close> differs from the JSON text of that snapshot. Hence a \<^verbatim>\<open>registerChange\<close> that
  observes a snapshot with the JSON text of the snapshot at the current position returns
  with the stack, the position and \<^verbatim>\<open>count()\<close> unchanged.
\<close>

theorem editorDidUpdate_guard:
  assumes "stack_ok w"
  shows "editorDidUpdate newData w =
           Inr (if newData = [] then False
                else if length newData \<noteq> length (state (stack w ! nat (position w))) then True
                else stringify newData \<noteq> stringify (state (stack w ! nat (position w))))
         \<and> (stringify (editor_save api (editor w)) = stringify (state (stack w ! nat (position w)))
              \<longrightarrow> (\<exists>v. registerChange api w = Some (Returned v) \<and> stack v = stack w
                         \<and> position v = position w \<and> count v = count w))"
proof -
  from assms have p: "0 \<le> position w" "position w < int (length (stack w))"
    by (simp_all add: stack_ok_def)
  have g: "editorDidUpdate newData v =
           Inr (if newData = [] then False
                else if length newData \<noteq> length (state (stack w ! nat (position w))) then True
                else stringify newData \<noteq> stringify (state (stack w ! nat (position w))))"
    if "stack v = stack w" "position v = position w" for v :: "'a plugin" and newData
    using p that by (auto simp: editorDidUpdate_def)
  have "\<exists>v. registerChange api w = Some (Returned v) \<and> stack v = stack w
                         \<and> position v = position w \<and> count v = count w"
    if s: "stringify (editor_save api (editor w)) = stringify (state (stack w ! nat (position w)))"
  proof -
    define w1 where "w1 = setReadOnly api w"
    define w2 where "w2 = w1\<lparr>shouldSaveHistory := True\<rparr>"
    have f: "stack w1 = stack w" "position w1 = position w" "editor w1 = editor w"
      "stack w2 = stack w" "position w2 = position w"
      by (simp_all add: w1_def w2_def setReadOnly_def)
    have l: "length (editor_save api (editor w)) = length (state (stack w ! nat (position w)))"
      using s by (rule stringify_length)
    have d: "editorDidUpdate (editor_save api (editor w1)) w2 = Inr False"
      by (subst g) (simp_all add: f s l)
    have r: "registerChange api w =
             (if \<not> readOnly w1 then
                (if shouldSaveHistory w1 then
                   (case editorDidUpdate (editor_save api (editor w1)) w2 of
                      Inl e \<Rightarrow> Some (Threw e w2)
                    | Inr True \<Rightarrow> save api (editor_save api (editor w1)) w2
                    | Inr False \<Rightarrow> Some (Returned w2))
                 else Some (Returned w2))
              else Some (Returned w1))"
      unfolding registerChange_def Let_def w1_def [symmetric] w2_def [symmetric] ..
    have "registerChange api w = Some (Returned w1) \<or> registerChange api w = Some (Returned w2)"
      unfolding r d by simp
    with f show ?thesis by (auto simp: count_def)
  qed
  with g [of w newData] show ?thesis by simp
qed

lemma unchanged_ok: "stack_ok unchanged"
  "stringify (editor_save list_api (editor unchanged))
   = stringify (state (stack unchanged ! nat (position unchanged)))"
  by (simp_all add: unchanged_def stack_ok_def sample_defs)

theorem editorDidUpdate_guard_witness:
  "stack_ok unchanged
   \<and> stringify (editor_save list_api (editor unchanged))
       = stringify (state (stack unchanged ! nat (position unchanged)))
   \<and> editorDidUpdate [] unchanged = Inr False
   \<and> editorDidUpdate [block_a, block_b] unchanged = Inr True
   \<and> editorDidUpdate [block_a] unchanged = Inr True
   \<and> editorDidUpdate (editor_save list_api (editor unchanged)) unchanged = Inr False
   \<and> (\<exists>v. registerChange list_api unchanged = Some (Returned v) \<and> count v = count unchanged)"
proof -
  have s: "state (stack unchanged ! nat (position unchanged))
           = [\<lparr>block_id = None, block_type = ''paragraph'', block_data = [],
                block_rest = [], block_order = [''type'', ''data'']\<rparr>]"
    by (simp add: unchanged_def sample_defs)
  from editorDidUpdate_guard [OF unchanged_ok(1), of "[]" list_api]
    editorDidUpdate_guard [OF unchanged_ok(1), of "[block_a, block_b]" list_api]
    editorDidUpdate_guard [OF unchanged_ok(1), of "[block_a]" list_api]
    editorDidUpdate_guard [OF unchanged_ok(1), of "editor_save list_api (editor unchanged)" list_api]
    unchanged_ok
  show ?thesis
    unfolding s by (auto simp: block_a_def stringify_defs)
qed

section \<open>The suppression flag\<close>

lemma registerChange_unfold:
  "registerChange api w =
     (if holder_toolbox api (editor w) then
        (if shouldSaveHistory w then
           (case editorDidUpdate (editor_save api (editor w))
                   (w\<lparr>readOnly := False, shouldSaveHistory := True\<rparr>) of
              Inl e \<Rightarrow> Some (Threw e (w\<lparr>readOnly := False, shouldSaveHistory := True\<rparr>))
            | Inr True \<Rightarrow> save api (editor_save api (editor w))
                            (w\<lparr>readOnly := False, shouldSaveHistory := True\<rparr>)
            | Inr False \<Rightarrow> Some (Returned (w\<lparr>readOnly := False, shouldSaveHistory := True\<rparr>)))
         else Some (Returned (w\<lparr>readOnly := False, shouldSaveHistory := True\<rparr>)))
      else Some (Returned (w\<lparr>readOnly := True\<rparr>)))"
  by (simp add: registerChange_def setReadOnly_def Let_def)

text \<open>
  \<^verbatim>\<open>registerChange\<close> does not always reset the flag: on an editor without its toolbox it
  takes the plugin for read-only and leaves \<^verbatim>\<open>shouldSaveHistory\<close> false, here after an
  \<^verbatim>\<open>undo\<close>.
\<close>

theorem suppression_flag_counterexample:
  "\<not> shouldSaveHistory muted
   \<and> registerChange list_api muted = Some (Returned (muted\<lparr>readOnly := True\<rparr>))
   \<and> \<not> shouldSaveHistory (muted\<lparr>readOnly := True\<rparr>)"
proof -
  have f: "\<not> shouldSaveHistory muted"
    using undo_facts(2) [OF at_capacity_ok(3,1), of list_api] by (simp add: muted_def)
  have t: "\<not> holder_toolbox list_api (editor muted)"
    by (simp add: muted_def list_api_def)
  from f t show ?thesis by (simp add: registerChange_unfold)
qed

text \<open>
  Claim C7, amended. An \<^verbatim>\<open>undo\<close> or \<^verbatim>\<open>redo\<close> that proceeds leaves \<^verbatim>\<open>shouldSaveHistory\<close>
  false, and every call it makes on the editor is made with the flag already false.
  On an editor that is not read-only (its toolbox is present) \<^verbatim>\<open>registerChange\<close> with
  the flag false commits nothing and sets the flag to true; with the flag true it
  commits the observed snapshot exactly when \<^verbatim>\<open>editorDidUpdate\<close> says so. On a read-only
  editor \<^verbatim>\<open>registerChange\<close> changes neither the stack nor the flag.
\<close>

theorem suppression_flag:
  "(stack_ok w \<and> canUndo w \<longrightarrow>
      \<not> shouldSaveHistory (undo_step api w)
      \<and> take (length (trace w)) (trace (undo_step api w)) = trace w
      \<and> list_all (\<lambda>ev. \<not> snd ev) (new_events w (undo_step api w)))
   \<and> (stack_ok w \<and> canRedo w \<longrightarrow>
      \<not> shouldSaveHistory (redo_step api w)
      \<and> take (length (trace w)) (trace (redo_step api w)) = trace w
      \<and> list_all (\<lambda>ev. \<not> snd ev) (new_events w (redo_step api w)))
   \<and> (holder_toolbox api (editor w) \<and> \<not> shouldSaveHistory w \<longrightarrow>
      registerChange api w = Some (Returned (w\<lparr>readOnly := False, shouldSaveHistory := True\<rparr>)))
   \<and> (holder_toolbox api (editor w) \<and> shouldSaveHistory w \<longrightarrow>
      registerChange api w =
        (case editorDidUpdate (editor_save api (editor w)) w of
           Inl e \<Rightarrow> Some (Threw e (w\<lparr>readOnly := False, shouldSaveHistory := True\<rparr>))
         | Inr True \<Rightarrow> save api (editor_save api (editor w))
                         (w\<lparr>readOnly := False, shouldSaveHistory := True\<rparr>)
         | Inr False \<Rightarrow> Some (Returned (w\<lparr>readOnly := False, shouldSaveHistory := True\<rparr>))))
   \<and> (\<not> holder_toolbox api (editor w) \<longrightarrow>
      registerChange api w = Some (Returned (w\<lparr>readOnly := True\<rparr>)))"
proof -
  have e: "editorDidUpdate d (w\<lparr>readOnly := False, shouldSaveHistory := True\<rparr>) = editorDidUpdate d w"
    for d by (simp add: editorDidUpdate_def)
  show ?thesis
    using undo_facts(2,7,8) [of w api] redo_facts(2,6,7) [of w api]
    by (simp add: registerChange_unfold e)
qed

lemma rewound_ok: "stack_ok rewound" "canRedo rewound"
  by (simp_all add: rewound_def at_capacity_def stack_ok_def canRedo_def count_def)

lemma undone_ok: "holder_toolbox list_api (editor undone)" "\<not> shouldSaveHistory undone"
  using undo_facts(2) [OF at_capacity_ok(3,1), of list_api]
  by (simp_all add: undone_def list_api_def live_def)

lemma small_observed: "holder_toolbox list_api (editor small)" "shouldSaveHistory small"
  "editorDidUpdate (editor_save list_api (editor small)) small = Inr True"
  by (simp_all add: sample_defs editorDidUpdate_def stringify_defs)

lemma muted_closed: "\<not> holder_toolbox list_api (editor muted)"
  by (simp add: muted_def list_api_def)

theorem suppression_flag_witness:
  "(stack_ok at_capacity \<and> canUndo at_capacity
      \<and> \<not> shouldSaveHistory (undo_step list_api at_capacity)
      \<and> list_all (\<lambda>ev. \<not> snd ev) (new_events at_capacity (undo_step list_api at_capacity)))
   \<and> (stack_ok rewound \<and> canRedo rewound
      \<and> \<not> shouldSaveHistory (redo_step list_api rewound)
      \<and> list_all (\<lambda>ev. \<not> snd ev) (new_events rewound (redo_step list_api rewound)))
   \<and> (holder_toolbox list_api (editor undone) \<and> \<not> shouldSaveHistory undone
      \<and> registerChange list_api undone
          = Some (Returned (undone\<lparr>readOnly := False, shouldSaveHistory := True\<rparr>)))
   \<and> (holder_toolbox list_api (editor small) \<and> shouldSaveHistory small
      \<and> registerChange list_api small
          = save list_api [block_a] (small\<lparr>readOnly := False, shouldSaveHistory := True\<rparr>))
   \<and> (\<not> holder_toolbox list_api (editor muted)
      \<and> registerChange list_api muted = Some (Returned (muted\<lparr>readOnly := True\<rparr>)))"
proof -
  have s: "editor_save list_api (editor small) = [block_a]"
    by (simp add: sample_defs)
  from suppression_flag [of at_capacity list_api] suppression_flag [of rewound list_api]
    suppression_flag [of undone list_api] suppression_flag [of small list_api]
    suppression_flag [of muted list_api]
    at_capacity_ok rewound_ok undone_ok small_observed muted_closed
  show ?thesis by (simp add: s)
qed

section \<open>The cursor restorer\<close>

text \<open>What \<^verbatim>\<open>setCaretIndex\<close> does, by the recorded offset.\<close>

lemma setCaretIndex_branches:
  "setCaretIndex api i c w =
     (case c of
        None \<Rightarrow> Returned (call_setToBlock api i w)
      | Some n \<Rightarrow>
          if n = 0 \<or> n = - 1 then Returned (call_setToBlock api i w)
          else if holder_content api (editor w) i then Returned (emit (SetPosLater i n) w)
          else Threw TypeError w)"
  by (simp add: setCaretIndex_def truthy_def split: option.split)

text \<open>
  Claim C8 asks that a recorded offset that is present and not the sentinel \<open>-1\<close> is
  restored as that offset, for the offset 0 as well. The test
  \<^verbatim>\<open>caretIndex && caretIndex !== -1\<close> takes 0 for missing: for the recorded offset 0 the
  caret is put at the end of the block, and no \<^verbatim>\<open>setPos\<close> is scheduled.
\<close>

theorem setCaretIndex_zero_offset:
  "setCaretIndex api i (Some 0) w = Returned (call_setToBlock api i w)
   \<and> new_calls w (world_of (setCaretIndex api i (Some 0) w)) = [SetToBlockEnd i]"
  by (simp add: setCaretIndex_def truthy_def new_calls_def new_events_def call_setToBlock_def)

section \<open>The deletion round trip\<close>

text \<open>
  Claim C9. Commit \<open>[a, b, c]\<close> and then \<open>[a, c]\<close> on a plugin that is not read-only
  (\<open>b\<close> and \<open>c\<close> have different ids). The \<^verbatim>\<open>undo\<close> that follows makes one structural call
  on the editor: the insertion of a block with the type and data of \<open>b\<close> at index 1.
  The \<^verbatim>\<open>redo\<close> after it makes one structural call: the deletion of the block at index
  1. This holds whatever the editor answers.
\<close>

theorem deletion_round_trip:
  assumes "stack_ok w0" "0 < maxLength w0" "\<not> readOnly w0"
    and "block_id b \<noteq> block_id c"
    and "save api [a, b, c] w0 = Some (Returned w1)"
    and "save api [a, c] (w1\<lparr>editor := e2\<rparr>) = Some (Returned w2)"
  shows "filter structural (new_calls w2 (undo_step api w2)) = [Insert (block_type b) (block_data b) 1]
         \<and> filter structural (new_calls (undo_step api w2) (redo_step api (undo_step api w2)))
             = [Delete 1]"
proof -
  note c = two_commits [OF assms(1,2,5,6)]
  have cu: "canUndo w2" using c(2,3) assms(3) by (simp add: canUndo_def)
  have 1: "filter structural (new_calls w2 (undo_step api w2)) = [Insert (block_type b) (block_data b) 1]"
    using cu c(1,4,5) assms(4) by (rule undo_deletion)
  define u where "u = undo_step api w2"
  note f = undo_facts(1,3,4,5) [OF cu c(1), of api, folded u_def]
  from c(1) have p: "position w2 < int (length (stack w2))" by (simp add: stack_ok_def)
  have ok: "stack_ok u" using stack_ok_undo [OF c(1), of api] by (simp add: u_def undo_step_def)
  have cr: "canRedo u" using f(1,3,4) c(2,3) assms(3) p by (simp add: canRedo_def count_def)
  have s1: "state (stack u ! nat (position u)) = [a, b, c]"
    using state_nth_eq [OF f(2), of "nat (position u)"] c(2,5) p f(1) by simp
  have "nat (position u + 1) = nat (position w2)" using f(1) by simp
  then have s2: "state (stack u ! nat (position u + 1)) = [a, c]"
    using state_nth_eq [OF f(2), of "nat (position w2)"] c(2,4) p by simp
  have "filter structural (new_calls u (redo_step api u)) = [Delete 1]"
    using cr ok s1 s2 assms(4) by (rule redo_deletion)
  with 1 show ?thesis by (simp add: u_def)
qed

lemma deleted_b_built:
  "save list_api [block_a, block_b, block_c] editing = Some (Returned
     (deleted_b\<lparr>stack := butlast (stack deleted_b), position := 1,
                editor := live [block_a, block_b, block_c] 1, trace := butlast (trace deleted_b)\<rparr>))"
  "save list_api [block_a, block_c]
     (deleted_b\<lparr>stack := butlast (stack deleted_b), position := 1,
                editor := live [block_a, block_b, block_c] 1, trace := butlast (trace deleted_b),
                editor := live [block_a, block_c] 1\<rparr>) = Some (Returned deleted_b)"
  by (simp_all add: save_def sample_defs editing_def deleted_b_def)

lemma editing_ok: "stack_ok editing" "0 < maxLength editing" "\<not> readOnly editing"
  "block_id block_b \<noteq> block_id block_c"
  by (simp_all add: stack_ok_def editing_def sample_defs)

theorem deletion_round_trip_witness:
  "stack_ok editing \<and> 0 < maxLength editing \<and> \<not> readOnly editing
   \<and> block_id block_b \<noteq> block_id block_c
   \<and> commit_all list_api [([block_a, block_b, block_c], live [block_a, block_b, block_c] 1),
                            ([block_a, block_c], live [block_a, block_c] 1)] editing = Some deleted_b
   \<and> filter structural (new_calls deleted_b (undo_step list_api deleted_b))
       = [Insert ''paragraph'' [(''text'', JStr ''B'')] 1]
   \<and> filter structural (new_calls (undo_step list_api deleted_b)
                            (redo_step list_api (undo_step list_api deleted_b))) = [Delete 1]"
proof -
  have e: "editing\<lparr>editor := live [block_a, block_b, block_c] 1\<rparr> = editing"
    by (simp add: editing_def)
  from deletion_round_trip [OF editing_ok deleted_b_built] editing_ok deleted_b_built
  show ?thesis by (simp add: e) (simp add: block_b_def)
qed

text \<open>
  On the small editor the live document is \<open>[a, b, c]\<close> again after the \<^verbatim>\<open>undo\<close>, the
  block \<open>b\<close> under the id that the editor gives an inserted block, and \<open>[a, c]\<close> after
  the \<^verbatim>\<open>redo\<close>.
\<close>

lemma live_document_restored:
  "le_blocks (editor deleted_b) = [block_a, block_c]
   \<and> le_blocks (editor (undo_step list_api deleted_b))
       = [block_a, block_b\<lparr>block_id := Some ''n''\<rparr>, block_c]
   \<and> le_blocks (editor (redo_step list_api (undo_step list_api deleted_b))) = [block_a, block_c]"
  by (simp add: undo_step_def redo_step_def undo_def redo_def canUndo_def canRedo_def count_def
      deleted_b_def sample_defs Let_def undoBranch_def redoBranch_def blockWasDeleted_def
      insertDeletedBlock_def idDiffers_def wasRemovedAt_def syncFocused_def setCaretIndex_def
      truthy_def call_insert_def call_delete_def call_update_def call_setToBlock_def
      set_blocks_def set_current_def upt_rec)

section \<open>Undo and redo are inverse\<close>

text \<open>
  Claim C4. Build a stack by committing \<open>n\<close> snapshots on a new plugin that is not
  read-only, whatever the editor shows at each commit. Then \<open>n - 1\<close> calls of \<^verbatim>\<open>undo\<close>
  followed by \<open>n - 1\<close> calls of \<^verbatim>\<open>redo\<close> bring the position back to where it was. After
  \<open>j\<close> undos the position is \<open>max 0 (position - j)\<close>, after \<open>i\<close> redos more it has moved
  up by \<open>i\<close>, capped by the original position; the snapshots stored on the stack are
  the same at every step, and they are the committed ones: the last \<open>maxLength + 1\<close> of
  the initial snapshot followed by the committed snapshots. When \<open>n\<close> is at most
  \<^verbatim>\<open>maxLength\<close>, the snapshot at the position after \<open>j\<close> undos is the
  \<open>(n - j)\<close>-th committed one, and after \<open>i\<close> redos more the \<open>(i + 1)\<close>-th. An \<^verbatim>\<open>undo\<close>
  or \<^verbatim>\<open>redo\<close> that throws has moved the position before, and the caller goes on.
\<close>

theorem undo_redo_inverse:
  fixes api :: "'e api" and cs :: "(block list \<times> 'e) list"
  assumes "commit_all api cs (constructor ed db False m) = Some w"
  defines "n \<equiv> length cs"
  defines "U \<equiv> \<lambda>j. (undo_step api ^^ j) w"
  defines "R \<equiv> \<lambda>i. (redo_step api ^^ i) (U (n - 1))"
  shows "position (R (n - 1)) = position w
         \<and> (\<forall>j\<le>n - 1. position (U j) = max 0 (position w - int j)
                        \<and> map state (stack (U j)) = map state (stack w))
         \<and> (\<forall>i\<le>n - 1. position (R i) = min (position w) (position (U (n - 1)) + int i)
                        \<and> map state (stack (R i)) = map state (stack w))
         \<and> map state (stack w) = lastn (nat (maxLength w) + 1)
                                    ([\<lparr>block_id = None, block_type = db, block_data = [],
       block_rest = [], block_order = [''type'', ''data'']\<rparr>] # map fst cs)
         \<and> position w = int (length (stack w)) - 1
         \<and> (int n \<le> maxLength w \<longrightarrow>
              (\<forall>j<n. position (U j) = int n - int j
                      \<and> state (stack (U j) ! nat (position (U j))) = fst (cs ! (n - 1 - j)))
              \<and> (\<forall>i<n. position (R i) = 1 + int i
                      \<and> state (stack (R i) ! nat (position (R i))) = fst (cs ! i)))"
proof -
  define s0 where "s0 = [\<lparr>block_id = None, block_type = db, block_data = [],
       block_rest = [], block_order = [''type'', ''data'']\<rparr>]"
  note b = built [OF assms(1), folded s0_def]
  have u: "position (U j) = max 0 (position w - int j)"
    "map state (stack (U j)) = map state (stack w)" "stack_ok (U j)" "\<not> readOnly (U j)" for j
    using undo_iter [OF b(3,4), where api = api and j = j] by (simp_all add: U_def)
  have lu: "length (stack (U j)) = length (stack w)" for j
    using u(2) [of j] by (rule map_eq_imp_length_eq)
  have cu: "count (U j) = position w" for j
    using lu [of j] b(2) by (simp add: count_def)
  have r: "position (R i) = min (position w) (position (U (n - 1)) + int i)"
    "stack (R i) = stack (U (n - 1))" for i
    using redo_iter [OF u(3,4), where api = api and j1 = "n - 1" and i = i] cu [of "n - 1"]
    by (simp_all add: R_def)
  have rs: "map state (stack (R i)) = map state (stack w)" for i
    using r(2) [of i] u(2) [of "n - 1"] by simp
  from b(3) have p0: "0 \<le> position w" by (simp add: stack_ok_def)
  have returns: "position (R (n - 1)) = position w"
  proof -
    have "min k (max 0 (k - a) + a) = k" if "0 \<le> k" "0 \<le> a" for k a :: int
      using that by arith
    from this [OF p0, of "int (n - 1)"] show ?thesis
      unfolding r(1) u(1) by simp
  qed
  have readable: "(\<forall>j<n. position (U j) = int n - int j
                      \<and> state (stack (U j) ! nat (position (U j))) = fst (cs ! (n - 1 - j)))
              \<and> (\<forall>i<n. position (R i) = 1 + int i
                      \<and> state (stack (R i) ! nat (position (R i))) = fst (cs ! i))"
    if le: "int n \<le> maxLength w"
  proof -
    from le have "length (s0 # map fst cs) \<le> nat (maxLength w) + 1" by (simp add: n_def)
    then have ms: "map state (stack w) = s0 # map fst cs"
      unfolding b(1) by (rule lastn_all)
    from arg_cong [OF ms, of length] have "length (stack w) = Suc n"
      by (simp add: n_def)
    with b(2) have pw: "position w = int n" by simp
    have at: "state (stack v ! Suc k) = fst (cs ! k)"
      if "map state (stack v) = map state (stack w)" "k < n" for v :: "'e plugin" and k
    proof -
      from that(1) ms have e: "map state (stack v) = s0 # map fst cs" by simp
      from arg_cong [OF e, of length] have "length (stack v) = Suc n"
        by (simp add: n_def)
      with that(2) have "state (stack v ! Suc k) = map state (stack v) ! Suc k" by simp
      also have "\<dots> = fst (cs ! k)" unfolding e using that(2) by (simp add: n_def)
      finally show ?thesis .
    qed
    have 1: "position (U j) = int n - int j
             \<and> state (stack (U j) ! nat (position (U j))) = fst (cs ! (n - 1 - j))" if "j < n" for j
    proof -
      from that have pj: "position (U j) = int n - int j" unfolding u(1) pw by simp
      from that have "nat (int n - int j) = Suc (n - 1 - j)" by simp
      with at [OF u(2) [of j], of "n - 1 - j"] that pj show ?thesis by simp
    qed
    have 2: "position (R i) = 1 + int i
             \<and> state (stack (R i) ! nat (position (R i))) = fst (cs ! i)" if "i < n" for i
    proof -
      from that have "position (U (n - 1)) = 1" unfolding u(1) pw by simp
      with that have pi: "position (R i) = 1 + int i" unfolding r(1) pw by simp
      have "nat (1 + int i) = Suc i" by simp
      with at [OF rs [of i], of i] that pi show ?thesis by simp
    qed
    show ?thesis by (intro conjI allI impI 1 2)
  qed
  have c2: "\<forall>j\<le>n - 1. position (U j) = max 0 (position w - int j)
                        \<and> map state (stack (U j)) = map state (stack w)"
    by (intro allI impI conjI u(1) u(2))
  have c3: "\<forall>i\<le>n - 1. position (R i) = min (position w) (position (U (n - 1)) + int i)
                        \<and> map state (stack (R i)) = map state (stack w)"
    by (intro allI impI conjI r(1) rs)
  have c6: "int n \<le> maxLength w \<longrightarrow>
              (\<forall>j<n. position (U j) = int n - int j
                      \<and> state (stack (U j) ! nat (position (U j))) = fst (cs ! (n - 1 - j)))
              \<and> (\<forall>i<n. position (R i) = 1 + int i
                      \<and> state (stack (R i) ! nat (position (R i))) = fst (cs ! i))"
    by (intro impI readable)
  show ?thesis
    by (intro conjI returns c2 c3 b(1) [unfolded s0_def] b(2) c6)
qed

lemma deleted_b_committed:
  "commit_all list_api [([block_a, block_b, block_c], live [block_a, block_b, block_c] 1),
                        ([block_a, block_c], live [block_a, block_c] 1)]
     (constructor (live [] 0) ''paragraph'' False None) = Some deleted_b"
  by (simp add: save_def sample_defs deleted_b_def)

theorem undo_redo_inverse_witness:
  "commit_all list_api [([block_a, block_b, block_c], live [block_a, block_b, block_c] 1),
                        ([block_a, block_c], live [block_a, block_c] 1)]
     (constructor (live [] 0) ''paragraph'' False None) = Some deleted_b
   \<and> int (length [([block_a, block_b, block_c], live [block_a, block_b, block_c] 1),
                    ([block_a, block_c], live [block_a, block_c] 1)]) \<le> maxLength deleted_b
   \<and> position deleted_b = 2
   \<and> position (undo_step list_api deleted_b) = 1
   \<and> state (stack (undo_step list_api deleted_b) ! 1) = [block_a, block_b, block_c]
   \<and> position (redo_step list_api (undo_step list_api deleted_b)) = 2
   \<and> state (stack (redo_step list_api (undo_step list_api deleted_b)) ! 2) = [block_a, block_c]"
proof -
  define cs where "cs = [([block_a, block_b, block_c], live [block_a, block_b, block_c] 1),
                         ([block_a, block_c], live [block_a, block_c] 1)]"
  have n: "length cs = 2" "length cs - 1 = 1" by (simp_all add: cs_def)
  have m: "int (length cs) \<le> maxLength deleted_b" by (simp add: cs_def deleted_b_def)
  note t = undo_redo_inverse [OF deleted_b_committed, folded cs_def]
  note fg = t [THEN conjunct2, THEN conjunct2, THEN conjunct2, THEN conjunct2, THEN conjunct2,
      THEN mp, OF m]
  note u = fg [THEN conjunct1] and r = fg [THEN conjunct2]
  from u [rule_format, of 1] u [rule_format, of 0] r [rule_format, of 1] n
  have "position (undo_step list_api deleted_b) = 1"
    "state (stack (undo_step list_api deleted_b) ! 1) = [block_a, block_b, block_c]"
    "position deleted_b = 2"
    "position (redo_step list_api (undo_step list_api deleted_b)) = 2"
    "state (stack (redo_step list_api (undo_step list_api deleted_b)) ! 2) = [block_a, block_c]"
    by (auto simp: cs_def)
  with deleted_b_committed m show ?thesis
    unfolding cs_def by (intro conjI)
qed

end
